theory Spec2Isabelle
  imports Main "HOL-Library.Word"
begin

unbundle bit_operations_syntax

section \<open>Exceptions and kernel calls\<close>

text \<open>
  The Python exceptions that the modelled code raises or lets through. A raise is the
  \<open>Inl\<close> branch of a sum; the string is the exception's message where the source gives one.
\<close>

datatype error =
    ValueError string
  | AttributeError string
  | NotImplementedError string
  | IndexError
  | Kernel32Error string
  | NtStatusException int
  | UnicodeDecodeError
  | TypeError string
  | StructError string
  | KeyError

text \<open>
  The calls that reach the kernel through \<open>winproxy\<close>, \<open>windows.syswow64\<close> or the raw
  \<open>kernel32.CloseHandle\<close> kept in \<open>AutoHandle._close_function\<close>. A trace is the list of
  the calls made so far, oldest first.
\<close>

datatype kcall =
    CloseHandle int
  | WaitForSingleObject int int
  | OpenProcess int
  | OpenThread int
  | GetCurrentProcess
  | GetCurrentThread
  | TerminateProcess int int
  | TerminateThread int int
  | ExitProcess int
  | ExitThread int
  | IsWow64Process int
  | Wow64GetThreadContext int
  | NtGetContextThread_32_to_64 int
  | GetThreadContext int
  | SetThreadContext int int
  | Wow64SetThreadContext int int
  | NtSetContextThread_32_to_64 int int
  | NtQueryInformationThread int int
  | NtQueryInformationThread_32_to_64 int

type_synonym trace = "kcall list"

text \<open>What the kernel answers to a call: a value, or the exception that \<open>winproxy\<close> raises.\<close>

type_synonym os = "kcall \<Rightarrow> error + int"

definition syscall :: "os \<Rightarrow> kcall \<Rightarrow> trace \<Rightarrow> (error + int) \<times> trace" where
  "syscall os c tr = (os c, tr @ [c])"

section \<open>AutoHandle and the classes that inherit it\<close>

datatype pyclass = WinProcess | WinThread | DeadThread | Token | CurrentProcess | CurrentThread

text \<open>
  An instance: its class, its \<open>pid\<close> or \<open>tid\<close>, the attribute \<open>_handle\<close>
  (\<open>None\<close> when \<open>hasattr(self, "_handle")\<close> is false), and what \<open>__repr__\<close> raises
  when it is evaluated, \<open>None\<close> when it returns. \<open>WinProcess.__repr__\<close> reads
  \<open>self.name\<close>, which decodes \<open>szExeFile\<close>; \<open>WinThread.__repr__\<close> reads \<open>self.owner\<close>,
  which enumerates the processes, and the owner's name: both can raise.
\<close>

record obj =
  cls :: pyclass
  ident :: int
  attr_handle :: "int option"
  repr_raises :: "error option"

text \<open>
  The argument of the two \<open>dbgprint\<close> calls, \<open>"...".format(hex(self._handle), self)\<close>,
  formats \<open>self\<close> through \<open>__repr__\<close>. \<open>DeadThread\<close>, \<open>Token\<close>, \<open>CurrentProcess\<close> and
  \<open>CurrentThread\<close> keep the \<open>__repr__\<close> of \<open>object\<close>, which does not raise.
\<close>

definition format_self :: "obj \<Rightarrow> error option" where
  "format_self self =
     (case cls self of
        WinProcess \<Rightarrow> repr_raises self
      | WinThread \<Rightarrow> repr_raises self
      | _ \<Rightarrow> None)"

text \<open>
  \<open>_get_handle\<close>: \<open>OpenProcess(dwProcessId=self.pid)\<close>, \<open>OpenThread(dwThreadId=self.tid)\<close>,
  \<open>GetCurrentProcess()\<close>, \<open>GetCurrentThread()\<close>; \<open>DeadThread\<close> and \<open>Token\<close> do not
  override the abstract method of \<open>AutoHandle\<close>, which raises \<open>NotImplementedError\<close>.
\<close>

definition get_handle :: "os \<Rightarrow> obj \<Rightarrow> trace \<Rightarrow> (error + int) \<times> trace" where
  "get_handle os self tr =
     (case cls self of
        WinProcess \<Rightarrow> syscall os (OpenProcess (ident self)) tr
      | WinThread \<Rightarrow> syscall os (OpenThread (ident self)) tr
      | CurrentProcess \<Rightarrow> syscall os GetCurrentProcess tr
      | CurrentThread \<Rightarrow> syscall os GetCurrentThread tr
      | DeadThread \<Rightarrow> (Inl (NotImplementedError ''DeadThread is abstract''), tr)
      | Token \<Rightarrow> (Inl (NotImplementedError ''Token is abstract''), tr))"

text \<open>
  The property \<open>AutoHandle.handle\<close>: the cached \<open>_handle\<close>, or \<open>_get_handle()\<close> stored
  in it. The message of \<open>dbgprint\<close> is formatted after the handle is stored: when that
  raises, the property raises and the handle stays stored.
\<close>

definition handle :: "os \<Rightarrow> obj \<Rightarrow> trace \<Rightarrow> (error + int) \<times> obj \<times> trace" where
  "handle os self tr =
     (case attr_handle self of
        Some h \<Rightarrow> (Inr h, self, tr)
      | None \<Rightarrow>
          (case get_handle os self tr of
             (Inl e, tr') \<Rightarrow> (Inl e, self, tr')
           | (Inr h, tr') \<Rightarrow>
               (case format_self (self\<lparr>attr_handle := Some h\<rparr>) of
                  Some e \<Rightarrow> (Inl e, self\<lparr>attr_handle := Some h\<rparr>, tr')
                | None \<Rightarrow> (Inr h, self\<lparr>attr_handle := Some h\<rparr>, tr'))))"

text \<open>
  \<open>AutoHandle.wait\<close> is \<open>winproxy.WaitForSingleObject(self.handle, timeout)\<close>;
  \<open>CurrentThread\<close> and \<open>CurrentProcess\<close> override it with a body that only raises.
\<close>

definition AutoHandle_wait :: "os \<Rightarrow> obj \<Rightarrow> int \<Rightarrow> trace \<Rightarrow> (error + int) \<times> obj \<times> trace" where
  "AutoHandle_wait os self timeout tr =
     (case handle os self tr of
        (Inl e, self', tr') \<Rightarrow> (Inl e, self', tr')
      | (Inr h, self', tr') \<Rightarrow>
          (case syscall os (WaitForSingleObject h timeout) tr' of
             (r, tr'') \<Rightarrow> (r, self', tr'')))"

definition CurrentThread_wait :: "os \<Rightarrow> obj \<Rightarrow> int \<Rightarrow> trace \<Rightarrow> (error + int) \<times> obj \<times> trace" where
  "CurrentThread_wait os self timeout tr = (Inl (ValueError ''wait() on current thread''), self, tr)"

definition CurrentProcess_wait :: "os \<Rightarrow> obj \<Rightarrow> int \<Rightarrow> trace \<Rightarrow> (error + int) \<times> obj \<times> trace" where
  "CurrentProcess_wait os self timeout tr = (Inl (ValueError ''wait() on current thread''), self, tr)"

text \<open>\<open>self.wait(timeout)\<close>, resolved by the class of \<open>self\<close>.\<close>

definition wait :: "os \<Rightarrow> obj \<Rightarrow> int \<Rightarrow> trace \<Rightarrow> (error + int) \<times> obj \<times> trace" where
  "wait os self timeout tr =
     (case cls self of
        CurrentThread \<Rightarrow> CurrentThread_wait os self timeout tr
      | CurrentProcess \<Rightarrow> CurrentProcess_wait os self timeout tr
      | _ \<Rightarrow> AutoHandle_wait os self timeout tr)"

text \<open>
  \<open>self.exit(code)\<close>: \<open>TerminateProcess(self.handle, code)\<close> for \<open>WinProcess\<close>,
  \<open>TerminateThread(self.handle, code)\<close> for \<open>WinThread\<close>, \<open>ExitProcess(code)\<close> and
  \<open>ExitThread(code)\<close> for the current process and thread. \<open>DeadThread\<close> and \<open>Token\<close>
  have no such method.
\<close>

definition exit :: "os \<Rightarrow> obj \<Rightarrow> int \<Rightarrow> trace \<Rightarrow> (error + int) \<times> obj \<times> trace" where
  "exit os self code tr =
     (case cls self of
        WinProcess \<Rightarrow>
          (case handle os self tr of
             (Inl e, self', tr') \<Rightarrow> (Inl e, self', tr')
           | (Inr h, self', tr') \<Rightarrow>
               (case syscall os (TerminateProcess h code) tr' of (r, tr'') \<Rightarrow> (r, self', tr'')))
      | WinThread \<Rightarrow>
          (case handle os self tr of
             (Inl e, self', tr') \<Rightarrow> (Inl e, self', tr')
           | (Inr h, self', tr') \<Rightarrow>
               (case syscall os (TerminateThread h code) tr' of (r, tr'') \<Rightarrow> (r, self', tr'')))
      | CurrentProcess \<Rightarrow> (case syscall os (ExitProcess code) tr of (r, tr') \<Rightarrow> (r, self, tr'))
      | CurrentThread \<Rightarrow> (case syscall os (ExitThread code) tr of (r, tr') \<Rightarrow> (r, self, tr'))
      | DeadThread \<Rightarrow> (Inl (AttributeError ''exit''), self, tr)
      | Token \<Rightarrow> (Inl (AttributeError ''exit''), self, tr))"

text \<open>
  \<open>__del__\<close>. When \<open>_handle\<close> exists and is truthy, \<open>AutoHandle.__del__\<close> formats the
  message of \<open>dbgprint\<close> and then calls the stored close function on \<open>_handle\<close>; an
  exception raised by the formatting leaves \<open>__del__\<close> before the close function is
  called. \<open>CurrentThread.__del__\<close> and \<open>CurrentProcess.__del__\<close> are \<open>pass\<close>.
\<close>

definition AutoHandle_del :: "obj \<Rightarrow> trace \<Rightarrow> trace" where
  "AutoHandle_del self tr =
     (case attr_handle self of
        Some h \<Rightarrow>
          (if h \<noteq> 0
           then (case format_self self of
                   Some e \<Rightarrow> tr
                 | None \<Rightarrow> tr @ [CloseHandle h])
           else tr)
      | None \<Rightarrow> tr)"

definition del :: "obj \<Rightarrow> trace \<Rightarrow> trace" where
  "del self tr =
     (case cls self of
        CurrentThread \<Rightarrow> tr
      | CurrentProcess \<Rightarrow> tr
      | _ \<Rightarrow> AutoHandle_del self tr)"

text \<open>
  The life of an object: any sequence of the calls above, each one leaving the object
  in place whether it returned or raised, and then \<open>__del__\<close>.
\<close>

datatype meth = M_handle | M_wait int | M_exit int

definition call_meth :: "os \<Rightarrow> meth \<Rightarrow> obj \<Rightarrow> trace \<Rightarrow> obj \<times> trace" where
  "call_meth os m self tr =
     (case m of
        M_handle \<Rightarrow> snd (handle os self tr)
      | M_wait t \<Rightarrow> snd (wait os self t tr)
      | M_exit c \<Rightarrow> snd (exit os self c tr))"

fun call_meths :: "os \<Rightarrow> meth list \<Rightarrow> obj \<Rightarrow> trace \<Rightarrow> obj \<times> trace" where
  "call_meths os [] self tr = (self, tr)"
| "call_meths os (m # ms) self tr =
     (case call_meth os m self tr of (self', tr') \<Rightarrow> call_meths os ms self' tr')"

definition lifetime :: "os \<Rightarrow> meth list \<Rightarrow> obj \<Rightarrow> obj \<times> trace" where
  "lifetime os ms self =
     (case call_meths os ms self [] of (self', tr) \<Rightarrow> (self', del self' tr))"

definition is_close :: "kcall \<Rightarrow> bool" where
  "is_close c = (case c of CloseHandle _ \<Rightarrow> True | _ \<Rightarrow> False)"

definition closes :: "trace \<Rightarrow> kcall list" where
  "closes tr = filter is_close tr"

text \<open>How often \<open>__del__\<close> is to close the handle of an object: the source's own test.\<close>

definition owned_closes :: "obj \<Rightarrow> kcall list" where
  "owned_closes self =
     (case attr_handle self of
        Some h \<Rightarrow> (if h \<noteq> 0 then [CloseHandle h] else [])
      | None \<Rightarrow> [])"

definition pseudo :: "pyclass \<Rightarrow> bool" where
  "pseudo c = (case c of CurrentProcess \<Rightarrow> True | CurrentThread \<Rightarrow> True | _ \<Rightarrow> False)"

text \<open>
  A process whose executable name holds a byte outside ASCII, so that \<open>self.name\<close>, and
  with it \<open>__repr__\<close>, raises \<open>UnicodeDecodeError\<close>; and a process whose name decodes.
\<close>

definition undecodable_process :: obj where
  "undecodable_process =
     \<lparr>cls = WinProcess, ident = 1234, attr_handle = None, repr_raises = Some UnicodeDecodeError\<rparr>"

definition plain_process :: obj where
  "plain_process = \<lparr>cls = WinProcess, ident = 1234, attr_handle = None, repr_raises = None\<rparr>"

section \<open>The address of the PEB\<close>

type_synonym byte = "8 word"

text \<open>\<open>struct.unpack("<Q", s)[0]\<close>: eight bytes, least significant first.\<close>

fun le_int :: "byte list \<Rightarrow> int" where
  "le_int [] = 0"
| "le_int (b # bs) = uint b + 256 * le_int bs"

definition unpack_Q :: "byte list \<Rightarrow> error + int" where
  "unpack_Q s =
     (if length s = 8 then Inr (le_int s)
      else Inl (StructError ''unpack requires a string argument of length 8''))"

text \<open>
  A \<open>ctypes\<close> buffer of \<open>n\<close> zero bytes after the kernel has written \<open>written\<close> at its
  start: the buffer keeps its length.
\<close>

definition filled :: "nat \<Rightarrow> byte list \<Rightarrow> byte list" where
  "filled n written = take n (written @ replicate (n - length written) 0)"

text \<open>\<open>.value\<close> of a \<open>c_void_p\<close>: \<open>None\<close> for the null pointer.\<close>

definition c_void_p_value :: "int \<Rightarrow> int option" where
  "c_void_p_value v = (if v = 0 then None else Some v)"

text \<open>
  The two process queries, with what the kernel writes: the bytes put in the buffer
  of the 32-to-64 query, and for \<open>NtQueryInformationProcess\<close> the value it stores (the
  \<open>ULONGLONG\<close> of class 26, the field \<open>PebBaseAddress\<close> of class 0).
\<close>

record nt_kernel =
  NtQueryInformationProcess_32_to_64 :: "int \<Rightarrow> nat \<Rightarrow> error + byte list"
  NtQueryInformationProcess :: "int \<Rightarrow> int \<Rightarrow> error + int"

text \<open>
  The three branches of \<open>WinProcess.peb_addr\<close>, each giving the Python value bound to
  \<open>peb_addr\<close> (\<open>None\<close> is Python's \<open>None\<close>). \<open>sizeof_x\<close> and \<open>peb_offset\<close> are
  \<open>ctypes.sizeof(x)\<close> and \<open>x.PebBaseAddress.offset\<close> of the 64-bit
  \<open>PROCESS_BASIC_INFORMATION\<close>, declared outside the modelled files.
\<close>

definition peb_addr_32_to_64 :: "nt_kernel \<Rightarrow> nat \<Rightarrow> nat \<Rightarrow> (error + int) \<Rightarrow> error + int option" where
  "peb_addr_32_to_64 K sizeof_x peb_offset self_handle =
     (case self_handle of
        Inl e \<Rightarrow> Inl e
      | Inr h \<Rightarrow>
          (case NtQueryInformationProcess_32_to_64 K h sizeof_x of
             Inl e \<Rightarrow> Inl e
           | Inr written \<Rightarrow>
               (case unpack_Q (take 8 (drop peb_offset (filled sizeof_x written))) of
                  Inl e \<Rightarrow> Inl e
                | Inr v \<Rightarrow> Inr (Some v))))"

definition peb_addr_64_to_32 :: "nt_kernel \<Rightarrow> (error + int) \<Rightarrow> error + int option" where
  "peb_addr_64_to_32 K self_handle =
     (case self_handle of
        Inl e \<Rightarrow> Inl e
      | Inr h \<Rightarrow>
          (case NtQueryInformationProcess K h 26 of
             Inl e \<Rightarrow> Inl e
           | Inr y \<Rightarrow> Inr (Some y)))"

definition peb_addr_same :: "nt_kernel \<Rightarrow> (error + int) \<Rightarrow> error + int option" where
  "peb_addr_same K self_handle =
     (case self_handle of
        Inl e \<Rightarrow> Inl e
      | Inr h \<Rightarrow>
          (case NtQueryInformationProcess K h 0 of
             Inl e \<Rightarrow> Inl e
           | Inr PebBaseAddress \<Rightarrow> Inr (c_void_p_value PebBaseAddress)))"

text \<open>
  \<open>WinProcess.peb_addr\<close>. \<open>current_bitness\<close> is \<open>windows.current_process.bitness\<close>;
  \<open>self_bitness\<close> and \<open>self_handle\<close> are what evaluating \<open>self.bitness\<close> and
  \<open>self.handle\<close> gives, \<open>self_bitness\<close> being read only where the \<open>and\<close> reaches it.
\<close>

definition peb_addr ::
  "nt_kernel \<Rightarrow> nat \<Rightarrow> nat \<Rightarrow> int \<Rightarrow> (error + int) \<Rightarrow> (error + int) \<Rightarrow> string \<Rightarrow> error + int" where
  "peb_addr K sizeof_x peb_offset current_bitness self_bitness self_handle name =
     (let branch =
        (if current_bitness = 32 then
           (case self_bitness of
              Inl e \<Rightarrow> Inl e
            | Inr b \<Rightarrow>
                if b = 64 then peb_addr_32_to_64 K sizeof_x peb_offset self_handle
                else peb_addr_same K self_handle)
         else if current_bitness = 64 then
           (case self_bitness of
              Inl e \<Rightarrow> Inl e
            | Inr b \<Rightarrow>
                if b = 32 then peb_addr_64_to_32 K self_handle
                else peb_addr_same K self_handle)
         else peb_addr_same K self_handle)
      in case branch of
           Inl e \<Rightarrow> Inl e
         | Inr None \<Rightarrow> Inl (ValueError (''Could not get peb addr of process '' @ name))
         | Inr (Some a) \<Rightarrow> Inr a)"

text \<open>A kernel that reports a null \<open>PebBaseAddress\<close> to every query.\<close>

definition null_peb_kernel :: nt_kernel where
  "null_peb_kernel =
     \<lparr>NtQueryInformationProcess_32_to_64 = (\<lambda>h n. Inr (replicate n 0)),
      NtQueryInformationProcess = (\<lambda>h c. Inr 0)\<rparr>"

section \<open>Walking the module list of a PEB\<close>

text \<open>
  The field offsets of \<open>PEB\<close>, \<open>PEB_LDR_DATA\<close> and \<open>LDR_DATA_TABLE_ENTRY\<close> for one pointer
  width; the structures are declared outside the modelled files. \<open>Flink\<close> is the first
  field of a \<open>LIST_ENTRY\<close>.
\<close>

record layout =
  off_Ldr :: int
  off_InMemoryOrderModuleList :: int
  off_InMemoryOrderLinks :: int
  off_DllBase :: int

text \<open>
  Reading one pointer-sized field at an address: through the target's \<open>read_memory\<close>
  for a remote structure, from the process's own memory for a \<open>ctypes\<close> structure.
\<close>

type_synonym reader = "int \<Rightarrow> error + int"

text \<open>
  The \<open>while current_dll.DllBase\<close> loop of \<open>RemotePEB.modules\<close>, \<open>RemotePEB64.modules\<close>
  and \<open>RemotePEB32.modules\<close>; \<open>psz\<close> is the \<open>ctypes.sizeof\<close> of the class's pointer
  type, \<open>current_dll\<close> the address of the entry, \<open>res\<close> the entries collected.
  \<open>None\<close> is a loop that never ends.
\<close>

partial_function (option) remote_walk ::
  "reader \<Rightarrow> layout \<Rightarrow> int \<Rightarrow> int \<Rightarrow> int list \<Rightarrow> (error + int list) option" where
  "remote_walk rd L psz current_dll res =
     (case rd (current_dll + off_DllBase L) of
        Inl e \<Rightarrow> Some (Inl e)
      | Inr DllBase \<Rightarrow>
          if DllBase = 0 then Some (Inr res)
          else (case rd (current_dll + off_InMemoryOrderLinks L) of
                  Inl e \<Rightarrow> Some (Inl e)
                | Inr list_entry_ptr \<Rightarrow>
                    remote_walk rd L psz (list_entry_ptr - psz * 2) (res @ [current_dll])))"

text \<open>
  Modelled from the spec: the remote structure engine (\<open>windows.remotectypes\<close>) is not
  among the modelled files; a field access on a remote structure reads the field
  through the accessor at the structure's address plus the field's offset.
\<close>

definition remote_modules :: "reader \<Rightarrow> layout \<Rightarrow> int \<Rightarrow> int \<Rightarrow> (error + int list) option" where
  "remote_modules rd L psz self =
     (case rd (self + off_Ldr L) of
        Inl e \<Rightarrow> Some (Inl e)
      | Inr Ldr_value \<Rightarrow>
          if Ldr_value = 0
          then Some (Inl (ValueError ''PEB->Ldr is NULL: cannot walk the module list''))
          else (case rd (self + off_Ldr L) of
                  Inl e \<Rightarrow> Some (Inl e)
                | Inr Ldr \<Rightarrow>
                    (case rd (Ldr + off_InMemoryOrderModuleList L) of
                       Inl e \<Rightarrow> Some (Inl e)
                     | Inr list_entry_ptr \<Rightarrow>
                         remote_walk rd L psz (list_entry_ptr - psz * 2) [])))"

definition RemotePEB_modules :: "reader \<Rightarrow> layout \<Rightarrow> int \<Rightarrow> int \<Rightarrow> (error + int list) option" where
  "RemotePEB_modules rd L current_bitness self = remote_modules rd L (current_bitness div 8) self"

definition RemotePEB64_modules :: "reader \<Rightarrow> layout \<Rightarrow> int \<Rightarrow> (error + int list) option" where
  "RemotePEB64_modules rd L self = remote_modules rd L 8 self"

definition RemotePEB32_modules :: "reader \<Rightarrow> layout \<Rightarrow> int \<Rightarrow> (error + int list) option" where
  "RemotePEB32_modules rd L self = remote_modules rd L 4 self"

text \<open>
  The loop of the local \<open>PEB.modules\<close>. \<open>LIST_ENTRY_PTR.TO_LDR_ENTRY\<close> subtracts from
  \<open>self.value\<close>, which is \<open>None\<close> for a null pointer: the subtraction then raises
  \<open>TypeError\<close>.
\<close>

definition TO_LDR_ENTRY :: "int \<Rightarrow> int \<Rightarrow> error + int" where
  "TO_LDR_ENTRY psz p =
     (case c_void_p_value p of
        None \<Rightarrow> Inl (TypeError ''unsupported operand type(s) for -: 'NoneType' and 'int' '')
      | Some v \<Rightarrow> Inr (v - psz * 2))"

partial_function (option) local_walk ::
  "reader \<Rightarrow> layout \<Rightarrow> int \<Rightarrow> int \<Rightarrow> int list \<Rightarrow> (error + int list) option" where
  "local_walk rd L psz current_dll res =
     (case rd (current_dll + off_DllBase L) of
        Inl e \<Rightarrow> Some (Inl e)
      | Inr DllBase \<Rightarrow>
          if DllBase = 0 then Some (Inr res)
          else (case rd (current_dll + off_InMemoryOrderLinks L) of
                  Inl e \<Rightarrow> Some (Inl e)
                | Inr Flink \<Rightarrow>
                    (case TO_LDR_ENTRY psz Flink of
                       Inl e \<Rightarrow> Some (Inl e)
                     | Inr next_dll \<Rightarrow> local_walk rd L psz next_dll (res @ [current_dll]))))"

text \<open>
  \<open>PEB.modules\<close>: \<open>self.Ldr.contents\<close> is the \<open>contents\<close> of a \<open>ctypes\<close> pointer, which
  raises \<open>ValueError("NULL pointer access")\<close> on a null pointer.
\<close>

definition PEB_modules :: "reader \<Rightarrow> layout \<Rightarrow> int \<Rightarrow> int \<Rightarrow> (error + int list) option" where
  "PEB_modules rd L current_bitness self =
     (case rd (self + off_Ldr L) of
        Inl e \<Rightarrow> Some (Inl e)
      | Inr Ldr \<Rightarrow>
          if Ldr = 0 then Some (Inl (ValueError ''NULL pointer access''))
          else (case rd (Ldr + off_InMemoryOrderModuleList L) of
                  Inl e \<Rightarrow> Some (Inl e)
                | Inr Flink \<Rightarrow>
                    (case TO_LDR_ENTRY (current_bitness div 8) Flink of
                       Inl e \<Rightarrow> Some (Inl e)
                     | Inr current_dll \<Rightarrow> local_walk rd L (current_bitness div 8) current_dll [])))"

text \<open>The layouts of a 64-bit and a 32-bit target.\<close>

definition layout64 :: layout where
  "layout64 = \<lparr>off_Ldr = 0x18, off_InMemoryOrderModuleList = 0x20,
                off_InMemoryOrderLinks = 0x10, off_DllBase = 0x30\<rparr>"

definition layout32 :: layout where
  "layout32 = \<lparr>off_Ldr = 0x0C, off_InMemoryOrderModuleList = 0x14,
                off_InMemoryOrderLinks = 0x08, off_DllBase = 0x18\<rparr>"

text \<open>
  A memory given by the pointer-sized cells it holds; reading anywhere else fails, as
  \<open>ReadProcessMemory\<close> does on an unmapped address.
\<close>

fun cells :: "(int \<times> int) list \<Rightarrow> reader" where
  "cells [] a = Inl (Kernel32Error ''ReadProcessMemory'')"
| "cells ((k, v) # kvs) a = (if a = k then Inr v else cells kvs a)"

text \<open>
  A 64-bit target whose PEB is at \<open>0x1000\<close> and whose loader data is at \<open>0x2000\<close>. The
  list holds one entry, at \<open>0x3000\<close>, with \<open>DllBase = 0x400000\<close>; its \<open>Flink\<close> points
  back at its own \<open>InMemoryOrderLinks\<close>, so no entry with \<open>DllBase = 0\<close> is reachable.
\<close>

definition circular_mem :: reader where
  "circular_mem = cells [(0x1018, 0x2000), (0x2020, 0x3010), (0x3030, 0x400000), (0x3010, 0x3010)]"

text \<open>
  A well-formed 64-bit target: two entries, at \<open>0x3000\<close> and \<open>0x4000\<close>, then the list
  head inside the loader data, where the field read as \<open>DllBase\<close> is zero.
\<close>

definition two_modules_mem :: reader where
  "two_modules_mem = cells
     [(0x1018, 0x2000), (0x2020, 0x3010),
      (0x3030, 0x400000), (0x3010, 0x4010),
      (0x4030, 0x7FF00000), (0x4010, 0x2020),
      (0x2040, 0)]"

text \<open>A target whose PEB, at \<open>0x1000\<close>, has a null \<open>Ldr\<close>.\<close>

definition null_ldr_mem :: reader where
  "null_ldr_mem = cells [(0x1018, 0), (0x100C, 0)]"

text \<open>The entry reached from \<open>current_dll\<close> after \<open>n\<close> steps along \<open>Flink\<close>, when the reads succeed.\<close>

fun entry_after :: "reader \<Rightarrow> layout \<Rightarrow> int \<Rightarrow> nat \<Rightarrow> int \<Rightarrow> int option" where
  "entry_after rd L psz 0 current_dll = Some current_dll"
| "entry_after rd L psz (Suc n) current_dll =
     (case rd (current_dll + off_InMemoryOrderLinks L) of
        Inl e \<Rightarrow> None
      | Inr list_entry_ptr \<Rightarrow> entry_after rd L psz n (list_entry_ptr - psz * 2))"

text \<open>Whether the entry at \<open>current_dll\<close> is one the loop keeps: its \<open>DllBase\<close> reads as non-zero.\<close>

definition loaded :: "reader \<Rightarrow> layout \<Rightarrow> int \<Rightarrow> bool" where
  "loaded rd L current_dll =
     (case rd (current_dll + off_DllBase L) of Inl e \<Rightarrow> False | Inr DllBase \<Rightarrow> DllBase \<noteq> 0)"

text \<open>An entry the loop keeps and whose \<open>Flink\<close> is not the null pointer.\<close>

definition linked :: "reader \<Rightarrow> layout \<Rightarrow> int \<Rightarrow> bool" where
  "linked rd L current_dll =
     (loaded rd L current_dll \<and> rd (current_dll + off_InMemoryOrderLinks L) \<noteq> Inr 0)"

section \<open>Reading strings from a process\<close>

text \<open>
  \<open>read_memory(addr, size)\<close>, with \<open>n\<close> for \<open>size\<close>: a fresh buffer of \<open>n\<close> bytes, filled by
  \<open>low_read_memory\<close>, returned whole. \<open>low\<close> stands for \<open>self.low_read_memory\<close>: the bytes
  the kernel copied, or the exception raised when the copy fails.
\<close>

type_synonym lowreader = "int \<Rightarrow> nat \<Rightarrow> error + byte list"

definition read_memory :: "lowreader \<Rightarrow> int \<Rightarrow> nat \<Rightarrow> error + byte list" where
  "read_memory low addr n =
     (case low addr n of
        Inl e \<Rightarrow> Inl e
      | Inr written \<Rightarrow> Inr (filled n written))"

text \<open>
  \<open>read_string\<close>: the loop over \<open>itertools.count()\<close>; \<open>res\<close> is the list of pieces,
  joined at the end. \<open>x.split("\x00", 1)[0]\<close> is the part of \<open>x\<close> before its first zero
  byte. \<open>None\<close> is a loop that never ends.
\<close>

partial_function (option) read_string_loop ::
  "lowreader \<Rightarrow> int \<Rightarrow> nat \<Rightarrow> byte list list \<Rightarrow> (error + byte list) option" where
  "read_string_loop low addr i res =
     (case read_memory low (addr + int i * 0x100) 0x100 of
        Inl e \<Rightarrow> Some (Inl e)
      | Inr x \<Rightarrow>
          if 0 \<in> set x then Some (Inr (concat (res @ [takeWhile (\<lambda>b. b \<noteq> 0) x])))
          else read_string_loop low addr (Suc i) (res @ [x]))"

definition read_string :: "lowreader \<Rightarrow> int \<Rightarrow> (error + byte list) option" where
  "read_string low addr = read_string_loop low addr 0 []"

text \<open>\<open>["".join(c) for c in zip(*[iter(x)] * 2)]\<close>: the two-byte pieces of \<open>x\<close>, a last odd byte dropped.\<close>

fun pairs :: "byte list \<Rightarrow> byte list list" where
  "pairs (a # b # xs) = [a, b] # pairs xs"
| "pairs xs = []"

text \<open>
  The loop of \<open>read_wstring\<close>. On a chunk with no zero pair \<open>res.extend(x)\<close> appends the
  bytes of \<open>x\<close> one by one; on the last chunk the pairs before the first zero pair are
  appended.
\<close>

partial_function (option) read_wstring_loop ::
  "lowreader \<Rightarrow> int \<Rightarrow> nat \<Rightarrow> byte list list \<Rightarrow> (error + byte list) option" where
  "read_wstring_loop low addr i res =
     (case read_memory low (addr + int i * 0x100) 0x100 of
        Inl e \<Rightarrow> Some (Inl e)
      | Inr x \<Rightarrow>
          if [0, 0] \<in> set (pairs x)
          then Some (Inr (concat (res @ takeWhile (\<lambda>c. c \<noteq> [0, 0]) (pairs x))))
          else read_wstring_loop low addr (Suc i) (res @ map (\<lambda>b. [b]) x))"

text \<open>
  Decoding UTF-16 to code points (a narrow build keeps a code point above \<open>0xFFFF\<close> as
  its two surrogates). \<open>s.decode('utf16')\<close> looks for a byte-order mark: after
  \<open>FF FE\<close> it skips the mark and decodes little-endian, after \<open>FE FF\<close> it skips the
  mark and decodes big-endian, otherwise it decodes in the machine's order, which is
  little-endian on Windows.
\<close>

datatype byteorder = LittleEndian | BigEndian

fun utf16_units :: "byteorder \<Rightarrow> byte list \<Rightarrow> error + nat list" where
  "utf16_units bo (a # b # xs) =
     (case utf16_units bo xs of
        Inl e \<Rightarrow> Inl e
      | Inr us \<Rightarrow>
          Inr ((case bo of
                  LittleEndian \<Rightarrow> unat a + 256 * unat b
                | BigEndian \<Rightarrow> 256 * unat a + unat b) # us))"
| "utf16_units bo [a] = Inl UnicodeDecodeError"
| "utf16_units bo [] = Inr []"

fun utf16_points :: "nat list \<Rightarrow> error + nat list" where
  "utf16_points [] = Inr []"
| "utf16_points [u] = (if 0xD800 \<le> u \<and> u \<le> 0xDFFF then Inl UnicodeDecodeError else Inr [u])"
| "utf16_points (u # v # us) =
     (if u < 0xD800 \<or> 0xDFFF < u then
        (case utf16_points (v # us) of Inl e \<Rightarrow> Inl e | Inr ps \<Rightarrow> Inr (u # ps))
      else if u \<le> 0xDBFF \<and> 0xDC00 \<le> v \<and> v \<le> 0xDFFF then
        (case utf16_points us of
           Inl e \<Rightarrow> Inl e
         | Inr ps \<Rightarrow> Inr ((0x10000 + (u - 0xD800) * 0x400 + (v - 0xDC00)) # ps))
      else Inl UnicodeDecodeError)"

definition decode_with :: "byteorder \<Rightarrow> byte list \<Rightarrow> error + nat list" where
  "decode_with bo s = (case utf16_units bo s of Inl e \<Rightarrow> Inl e | Inr us \<Rightarrow> utf16_points us)"

definition decode_utf16 :: "byte list \<Rightarrow> error + nat list" where
  "decode_utf16 s =
     (if take 2 s = [0xFF, 0xFE] then decode_with LittleEndian (drop 2 s)
      else if take 2 s = [0xFE, 0xFF] then decode_with BigEndian (drop 2 s)
      else decode_with LittleEndian s)"

definition decode_utf16_le :: "byte list \<Rightarrow> error + nat list" where
  "decode_utf16_le s = decode_with LittleEndian s"

text \<open>\<open>"".join(res).decode('utf16')\<close> after the loop.\<close>

definition read_wstring :: "lowreader \<Rightarrow> int \<Rightarrow> (error + nat list) option" where
  "read_wstring low addr =
     (case read_wstring_loop low addr 0 [] of
        None \<Rightarrow> None
      | Some (Inl e) \<Rightarrow> Some (Inl e)
      | Some (Inr joined) \<Rightarrow> Some (decode_utf16 joined))"

text \<open>
  The reference of the specification: the same chunked reads, every chunk split into
  two-byte pairs, the pairs before the first zero pair kept, the result decoded as
  UTF-16LE.
\<close>

partial_function (option) read_wstring_spec_loop ::
  "lowreader \<Rightarrow> int \<Rightarrow> nat \<Rightarrow> byte list list \<Rightarrow> (error + byte list) option" where
  "read_wstring_spec_loop low addr i res =
     (case read_memory low (addr + int i * 0x100) 0x100 of
        Inl e \<Rightarrow> Some (Inl e)
      | Inr x \<Rightarrow>
          if [0, 0] \<in> set (pairs x)
          then Some (Inr (concat (res @ takeWhile (\<lambda>c. c \<noteq> [0, 0]) (pairs x))))
          else read_wstring_spec_loop low addr (Suc i) (res @ pairs x))"

definition read_wstring_spec :: "lowreader \<Rightarrow> int \<Rightarrow> (error + nat list) option" where
  "read_wstring_spec low addr =
     (case read_wstring_spec_loop low addr 0 [] of
        None \<Rightarrow> None
      | Some (Inl e) \<Rightarrow> Some (Inl e)
      | Some (Inr joined) \<Rightarrow> Some (decode_utf16_le joined))"

text \<open>Whether a byte string starts with a byte-order mark.\<close>

definition bom :: "byte list \<Rightarrow> bool" where
  "bom s = (take 2 s = [0xFF, 0xFE] \<or> take 2 s = [0xFE, 0xFF])"

text \<open>
  Modelled from the spec: the kernel copy behind \<open>low_read_memory\<close> (\<open>winproxy\<close> is not
  among the modelled files). The address space is a partial map from addresses to
  bytes; a read of \<open>n\<close> bytes gives exactly the \<open>n\<close> bytes at \<open>addr\<close> when all of them are
  mapped and fails otherwise.
\<close>

type_synonym memory = "int \<Rightarrow> byte option"

definition mapped :: "memory \<Rightarrow> int \<Rightarrow> nat \<Rightarrow> bool" where
  "mapped m addr n = list_all (\<lambda>j. m (addr + int j) \<noteq> None) [0..<n]"

definition copy_from :: "memory \<Rightarrow> lowreader" where
  "copy_from m addr n =
     (if mapped m addr n then Inr (map (\<lambda>j. the (m (addr + int j))) [0..<n])
      else Inl (Kernel32Error ''ReadProcessMemory''))"

text \<open>An address space made of segments: a base address and the bytes mapped from it.\<close>

fun peek :: "(int \<times> byte list) list \<Rightarrow> memory" where
  "peek [] a = None"
| "peek ((base, bs) # segs) a =
     (if base \<le> a \<and> a < base + int (length bs) then Some (bs ! nat (a - base)) else peek segs a)"

text \<open>The zero-terminated string \<open>s\<close> is mapped at \<open>addr\<close>: its bytes, none zero, then a zero byte.\<close>

definition string_at :: "memory \<Rightarrow> int \<Rightarrow> byte list \<Rightarrow> bool" where
  "string_at m addr s =
     (list_all (\<lambda>j. m (addr + int j) = Some (s ! j)) [0..<length s]
      \<and> 0 \<notin> set s \<and> m (addr + int (length s)) = Some 0)"

text \<open>
  The wide string \<open>s\<close> is mapped at \<open>addr\<close>: an even number of bytes with no zero pair
  at an even offset, then a zero pair.
\<close>

definition wstring_at :: "memory \<Rightarrow> int \<Rightarrow> byte list \<Rightarrow> bool" where
  "wstring_at m addr s =
     (list_all (\<lambda>j. m (addr + int j) = Some (s ! j)) [0..<length s]
      \<and> even (length s) \<and> [0, 0] \<notin> set (pairs s)
      \<and> m (addr + int (length s)) = Some 0 \<and> m (addr + int (length s) + 1) = Some 0)"

text \<open>
  The string \<open>ab\<close> and its terminator in the last three bytes of a segment that ends
  at \<open>0x2000\<close>; nothing is mapped after it.
\<close>

definition tail_mem :: memory where
  "tail_mem = peek [(0x1F00, replicate 0xFD 0x20 @ [0x61, 0x62, 0])]"

text \<open>The same string at the start of a segment of \<open>0x100\<close> bytes.\<close>

definition head_mem :: memory where
  "head_mem = peek [(0x1000, [0x61, 0x62, 0] @ replicate 0xFD 0)]"

text \<open>A wide string that starts with the byte-order mark \<open>FF FE\<close>, then \<open>A\<close>, then the zero pair.\<close>

definition bom_mem :: memory where
  "bom_mem = peek [(0x1000, [0xFF, 0xFE, 0x41, 0, 0, 0] @ replicate 0xFA 0)]"

text \<open>The wide string \<open>Hi\<close> and its zero pair.\<close>

definition wide_mem :: memory where
  "wide_mem = peek [(0x1000, [0x48, 0, 0x69, 0, 0, 0] @ replicate 0xFA 0)]"

section \<open>Enumerating the memory of a process\<close>

text \<open>\<open>MEMORY_BASIC_INFORMATION\<close>, as \<open>query_memory\<close> returns it.\<close>

record region =
  BaseAddress :: int
  AllocationBase :: int
  AllocationProtect :: int
  RegionSize :: int
  State :: int
  Protect :: int
  Type :: int

text \<open>The two kernel queries: the handle and the address, answered by a region or an exception.\<close>

record vm_kernel =
  NtQueryVirtualMemory_32_to_64 :: "int \<Rightarrow> int \<Rightarrow> error + region"
  VirtualQueryEx :: "int \<Rightarrow> int \<Rightarrow> error + region"

text \<open>
  The handler of \<open>query_memory\<close>: an \<open>NtStatusException\<close> whose code, masked to 32 bits,
  is \<open>0xC000000D\<close> becomes a \<open>Kernel32Error\<close>; any other exception passes through.
\<close>

definition convert_status :: "error \<Rightarrow> error" where
  "convert_status e =
     (case e of
        NtStatusException code \<Rightarrow>
          if code AND 0xffffffff = 0xC000000D then Kernel32Error ''NtQueryVirtualMemory_32_to_64''
          else e
      | _ \<Rightarrow> e)"

text \<open>
  \<open>Process.query_memory\<close>. \<open>self_bitness\<close> and \<open>self_handle\<close> are what evaluating
  \<open>self.bitness\<close> and \<open>self.handle\<close> gives; \<open>self.handle\<close> is evaluated inside the \<open>try\<close>
  on the 32-to-64 branch.
\<close>

definition query_memory ::
  "vm_kernel \<Rightarrow> int \<Rightarrow> (error + int) \<Rightarrow> (error + int) \<Rightarrow> int \<Rightarrow> error + region" where
  "query_memory K current_bitness self_bitness self_handle addr =
     (let plain =
        (if current_bitness = 32 \<or> current_bitness = 64 then
           (case self_handle of
              Inl e \<Rightarrow> Inl e
            | Inr h \<Rightarrow> VirtualQueryEx K h addr)
         else Inl KeyError)
      in if current_bitness = 32 then
           (case self_bitness of
              Inl e \<Rightarrow> Inl e
            | Inr b \<Rightarrow>
                if b = 64 then
                  (case self_handle of
                     Inl e \<Rightarrow> Inl (convert_status e)
                   | Inr h \<Rightarrow>
                       (case NtQueryVirtualMemory_32_to_64 K h addr of
                          Inl e \<Rightarrow> Inl (convert_status e)
                        | Inr res \<Rightarrow> Inr res))
                else plain)
         else plain)"

text \<open>
  \<open>Process.memory_state\<close>, a generator: \<open>q\<close> is \<open>self.query_memory\<close>. The result is the
  list of the regions yielded and how the iteration ended: \<open>None\<close> for the \<open>return\<close> on
  a \<open>Kernel32Error\<close>, the exception when another one escapes. \<open>None\<close> for the whole is a
  generator that yields without end.
\<close>

type_synonym query = "int \<Rightarrow> error + region"

definition is_Kernel32Error :: "error \<Rightarrow> bool" where
  "is_Kernel32Error e = (case e of Kernel32Error _ \<Rightarrow> True | _ \<Rightarrow> False)"

partial_function (option) memory_state_loop ::
  "query \<Rightarrow> int \<Rightarrow> region list \<Rightarrow> (region list \<times> error option) option" where
  "memory_state_loop q addr yielded =
     (case q addr of
        Inl e \<Rightarrow> Some (yielded, if is_Kernel32Error e then None else Some e)
      | Inr x \<Rightarrow> memory_state_loop q (addr + RegionSize x) (yielded @ [x]))"

definition memory_state :: "query \<Rightarrow> (region list \<times> error option) option" where
  "memory_state q = memory_state_loop q 0 []"

text \<open>
  The generator one \<open>next\<close> at a time. Its state is the address of the next query, or
  \<open>None\<close> once it has ended; a fresh generator is at address \<open>0\<close>.
\<close>

datatype step = Yield region | StopIteration | Raise error

definition memory_state_next :: "query \<Rightarrow> int option \<Rightarrow> step \<times> int option" where
  "memory_state_next q st =
     (case st of
        None \<Rightarrow> (StopIteration, None)
      | Some addr \<Rightarrow>
          (case q addr of
             Inl e \<Rightarrow> (if is_Kernel32Error e then StopIteration else Raise e, None)
           | Inr x \<Rightarrow> (Yield x, Some (addr + RegionSize x))))"

text \<open>The address of the query number \<open>n\<close> of an enumeration that is at \<open>addr\<close>.\<close>

fun addr_after :: "query \<Rightarrow> int \<Rightarrow> nat \<Rightarrow> int" where
  "addr_after q addr 0 = addr"
| "addr_after q addr (Suc n) =
     (case q addr of
        Inl e \<Rightarrow> addr
      | Inr x \<Rightarrow> addr_after q (addr + RegionSize x) n)"

text \<open>The region found by the query number \<open>n\<close>.\<close>

definition region_at :: "query \<Rightarrow> nat \<Rightarrow> region" where
  "region_at q n = projr (q (addr_after q 0 n))"

text \<open>
  The contract of the kernel query. A successful query at an address gives a region
  that begins at or below the address and holds it, and no region begins below
  address \<open>0\<close>. The regions do not overlap from above: the region given for an address
  at or beyond the end of another region begins at or beyond that end. Two addresses
  of one region may be answered by different records: \<open>VirtualQueryEx\<close> gives the page
  of the address as \<open>BaseAddress\<close> and counts \<open>RegionSize\<close> from there.
\<close>

definition covering :: "query \<Rightarrow> bool" where
  "covering q =
     (\<forall>a r. q a = Inr r \<longrightarrow>
        0 \<le> BaseAddress r \<and> BaseAddress r \<le> a \<and> a < BaseAddress r + RegionSize r
        \<and> (\<forall>b r'. BaseAddress r + RegionSize r \<le> b \<and> q b = Inr r' \<longrightarrow>
               BaseAddress r + RegionSize r \<le> BaseAddress r'))"

text \<open>An address lies in a region.\<close>

definition inside :: "int \<Rightarrow> region \<Rightarrow> bool" where
  "inside a r = (BaseAddress r \<le> a \<and> a < BaseAddress r + RegionSize r)"

definition region_of :: "int \<Rightarrow> int \<Rightarrow> region" where
  "region_of base sz =
     \<lparr>BaseAddress = base, AllocationBase = base, AllocationProtect = 0, RegionSize = sz,
      State = 0x10000, Protect = 1, Type = 0\<rparr>"

text \<open>
  An address space given by its regions, each one as its first address and the address
  after its last. A query answers as \<open>VirtualQueryEx\<close> does: \<open>BaseAddress\<close> is the page
  of the address, \<open>RegionSize\<close> the bytes from there to the end of the region. A query
  outside the regions fails.
\<close>

fun page_query :: "(int \<times> int) list \<Rightarrow> query" where
  "page_query [] a = Inl (Kernel32Error ''VirtualQueryEx'')"
| "page_query ((start, stop) # rs) a =
     (if start \<le> a \<and> a < stop
      then Inr ((region_of (a - a mod 0x1000) (stop - (a - a mod 0x1000)))\<lparr>AllocationBase := start\<rparr>)
      else page_query rs a)"

definition two_regions :: query where
  "two_regions = page_query [(0, 0x10000), (0x10000, 0x7FFF0000)]"

text \<open>
  A kernel over that address space; its 32-to-64 query fails with the status
  \<open>0xC000000D\<close>, which \<open>ctypes\<close> reports as a negative number.
\<close>

definition two_regions_kernel :: vm_kernel where
  "two_regions_kernel =
     \<lparr>NtQueryVirtualMemory_32_to_64 = (\<lambda>h a. Inl (NtStatusException (- 1073741811))),
      VirtualQueryEx = (\<lambda>h. two_regions)\<rparr>"

text \<open>An address space in which no query fails: a region of \<open>0x1000\<close> bytes at every address.\<close>

definition endless_regions :: query where
  "endless_regions a = Inr (region_of a 0x1000)"

section \<open>Toolhelp enumeration\<close>

text \<open>
  The state that the enumerations act on. \<open>objects\<close> are the \<open>ctypes\<close> structures alive,
  a reference being an index in the list; \<open>snapshots\<close> maps each open snapshot handle
  to the entries it captured and to the position of the kernel's cursor. A handle
  stays in \<open>snapshots\<close> until it is closed.
\<close>

record 'e world =
  objects :: "'e list"
  snapshots :: "int \<Rightarrow> ('e list \<times> nat) option"

text \<open>Creating a structure, and copying one into a new structure.\<close>

definition new_object :: "'e \<Rightarrow> 'e world \<Rightarrow> nat \<times> 'e world" where
  "new_object v w = (length (objects w), w\<lparr>objects := objects w @ [v]\<rparr>)"

text \<open>
  Modelled from the spec: \<open>utils.swallow_ctypes_copy\<close> is not among the modelled files;
  it materializes an owned copy of the entry. \<open>copy.copy\<close> on a \<open>ctypes\<close> structure does
  the same.
\<close>

definition swallow_ctypes_copy :: "nat \<Rightarrow> 'e world \<Rightarrow> nat \<times> 'e world" where
  "swallow_ctypes_copy r w = new_object (objects w ! r) w"

definition copy_copy :: "nat \<Rightarrow> 'e world \<Rightarrow> nat \<times> 'e world" where
  "copy_copy r w = new_object (objects w ! r) w"

text \<open>
  Modelled from the spec: the toolhelp thunks of \<open>winproxy\<close>, which is not among the
  modelled files. \<open>CreateToolhelp32Snapshot\<close> captures the entries \<open>sys\<close> of the system
  under a handle. \<open>Process32First\<close> and \<open>Thread32First\<close> write the first entry into the
  caller's structure and raise when there is none; \<open>Process32Next\<close> and \<open>Thread32Next\<close>
  write the next entry and return true, or return false after the last one.
\<close>

definition CreateToolhelp32Snapshot :: "'e list \<Rightarrow> int \<Rightarrow> 'e world \<Rightarrow> 'e world" where
  "CreateToolhelp32Snapshot sys snap w = w\<lparr>snapshots := (snapshots w)(snap \<mapsto> (sys, 0))\<rparr>"

definition toolhelp_first :: "string \<Rightarrow> int \<Rightarrow> nat \<Rightarrow> 'e world \<Rightarrow> (error + bool) \<times> 'e world" where
  "toolhelp_first name snap entry w =
     (case snapshots w snap of
        None \<Rightarrow> (Inl (Kernel32Error name), w)
      | Some (es, c) \<Rightarrow>
          (case es of
             [] \<Rightarrow> (Inl (Kernel32Error name), w)
           | e # _ \<Rightarrow>
               (Inr True, w\<lparr>objects := (objects w)[entry := e],
                            snapshots := (snapshots w)(snap \<mapsto> (es, 1))\<rparr>)))"

definition toolhelp_next :: "string \<Rightarrow> int \<Rightarrow> nat \<Rightarrow> 'e world \<Rightarrow> (error + bool) \<times> 'e world" where
  "toolhelp_next name snap entry w =
     (case snapshots w snap of
        None \<Rightarrow> (Inl (Kernel32Error name), w)
      | Some (es, c) \<Rightarrow>
          if c < length es
          then (Inr True, w\<lparr>objects := (objects w)[entry := es ! c],
                             snapshots := (snapshots w)(snap \<mapsto> (es, Suc c))\<rparr>)
          else (Inr False, w))"

text \<open>The entries that the cursor of a snapshot has not reached.\<close>

definition remaining :: "int \<Rightarrow> 'e world \<Rightarrow> nat" where
  "remaining snap w = (case snapshots w snap of None \<Rightarrow> 0 | Some (es, c) \<Rightarrow> length es - c)"

text \<open>
  The loop \<open>while winproxy.Process32Next(snap, process_entry): res.append(...)\<close> of
  \<open>enumerate_processes\<close>.
\<close>

function Process32Next_loop ::
  "int \<Rightarrow> nat \<Rightarrow> nat list \<Rightarrow> 'e world \<Rightarrow> (error + nat list) \<times> 'e world" where
  "Process32Next_loop snap process_entry res w =
     (case toolhelp_next ''Process32Next'' snap process_entry w of
        (Inl e, w') \<Rightarrow> (Inl e, w')
      | (Inr again, w') \<Rightarrow>
          if again
          then Process32Next_loop snap process_entry
                 (res @ [fst (swallow_ctypes_copy process_entry w')])
                 (snd (swallow_ctypes_copy process_entry w'))
          else (Inr res, w'))"
  by pat_completeness auto
termination
  by (relation "measure (\<lambda>(snap, process_entry, res, w). remaining snap w)")
     (auto simp: toolhelp_next_def remaining_def swallow_ctypes_copy_def new_object_def
           split: option.splits if_splits)

text \<open>
  \<open>System.enumerate_processes\<close>. \<open>blank\<close> is the structure that \<open>WinProcess()\<close> creates,
  with \<open>dwSize\<close> set; \<open>sys\<close> and \<open>created\<close> are what \<open>CreateToolhelp32Snapshot\<close> captures
  and returns. The result is the list \<open>res\<close> of references.
\<close>

definition enumerate_processes ::
  "'e \<Rightarrow> 'e list \<Rightarrow> (error + int) \<Rightarrow> 'e world \<Rightarrow> (error + nat list) \<times> 'e world" where
  "enumerate_processes blank sys created w =
     (case new_object blank w of
        (process_entry, w1) \<Rightarrow>
          (case created of
             Inl e \<Rightarrow> (Inl e, w1)
           | Inr snap \<Rightarrow>
               (case toolhelp_first ''Process32First'' snap process_entry
                       (CreateToolhelp32Snapshot sys snap w1) of
                  (Inl e, w2) \<Rightarrow> (Inl e, w2)
                | (Inr found, w2) \<Rightarrow>
                    Process32Next_loop snap process_entry
                      [fst (swallow_ctypes_copy process_entry w2)]
                      (snd (swallow_ctypes_copy process_entry w2)))))"

text \<open>The loop of \<open>enumerate_threads\<close>, and the function.\<close>

function Thread32Next_loop ::
  "int \<Rightarrow> nat \<Rightarrow> nat list \<Rightarrow> 'e world \<Rightarrow> (error + nat list) \<times> 'e world" where
  "Thread32Next_loop snap thread_entry threads w =
     (case toolhelp_next ''Thread32Next'' snap thread_entry w of
        (Inl e, w') \<Rightarrow> (Inl e, w')
      | (Inr again, w') \<Rightarrow>
          if again
          then Thread32Next_loop snap thread_entry
                 (threads @ [fst (copy_copy thread_entry w')])
                 (snd (copy_copy thread_entry w'))
          else (Inr threads, w'))"
  by pat_completeness auto
termination
  by (relation "measure (\<lambda>(snap, thread_entry, threads, w). remaining snap w)")
     (auto simp: toolhelp_next_def remaining_def copy_copy_def new_object_def
           split: option.splits if_splits)

definition enumerate_threads ::
  "'e \<Rightarrow> 'e list \<Rightarrow> (error + int) \<Rightarrow> 'e world \<Rightarrow> (error + nat list) \<times> 'e world" where
  "enumerate_threads blank sys created w =
     (case new_object blank w of
        (thread_entry, w1) \<Rightarrow>
          (case created of
             Inl e \<Rightarrow> (Inl e, w1)
           | Inr snap \<Rightarrow>
               (case toolhelp_first ''Thread32First'' snap thread_entry
                       (CreateToolhelp32Snapshot sys snap w1) of
                  (Inl e, w2) \<Rightarrow> (Inl e, w2)
                | (Inr found, w2) \<Rightarrow>
                    Thread32Next_loop snap thread_entry
                      [fst (copy_copy thread_entry w2)]
                      (snd (copy_copy thread_entry w2)))))"

text \<open>A world with no structure and no open snapshot.\<close>

definition empty_world :: "'e world" where
  "empty_world = \<lparr>objects = [], snapshots = (\<lambda>h. None)\<rparr>"

text \<open>Whether a handle is an open snapshot handle.\<close>

definition snapshot_open :: "int \<Rightarrow> 'e world \<Rightarrow> bool" where
  "snapshot_open snap w = (snapshots w snap \<noteq> None)"

section \<open>Threads and their owner\<close>

text \<open>
  A \<open>WinProcess\<close>: the fields of \<open>PROCESSENTRY32\<close> that the modelled code reads, and
  the attributes \<open>_handle\<close>, \<open>_is_wow_64\<close> and \<open>_bitness\<close>, \<open>None\<close> while they are not
  set.
\<close>

record winprocess =
  th32ProcessID :: int
  th32ParentProcessID :: int
  szExeFile :: string
  process_handle :: "int option"
  process_is_wow_64 :: "bool option"
  process_bitness :: "int option"

text \<open>
  A \<open>WinThread\<close>: the fields of \<open>THREADENTRY32\<close> that the modelled code reads, and the
  attributes \<open>_handle\<close> and \<open>_owner\<close>. \<open>thread_owner\<close> is \<open>None\<close> while \<open>_owner\<close> is not
  set, \<open>Some None\<close> when it holds Python's \<open>None\<close>, \<open>Some (Some p)\<close> when it holds a
  process.
\<close>

record winthread =
  th32ThreadID :: int
  th32OwnerProcessID :: int
  thread_handle :: "int option"
  thread_owner :: "winprocess option option"

text \<open>
  \<open>WinProcess.name\<close>: \<open>self.szExeFile[:].decode()\<close>, with the default codec, which
  accepts the bytes below \<open>0x80\<close> only.
\<close>

definition WinProcess_name :: "winprocess \<Rightarrow> error + string" where
  "WinProcess_name self =
     (if list_all (\<lambda>c. (of_char c :: nat) < 0x80) (szExeFile self) then Inr (szExeFile self)
      else Inl UnicodeDecodeError)"

text \<open>
  What \<open>__repr__\<close> raises. \<open>WinProcess.__repr__\<close> reads \<open>self.name\<close>.
  \<open>WinThread.__repr__\<close> reads \<open>self.owner\<close> and, when it is a process, its name; where
  the modelled methods read \<open>self.handle\<close> of a thread the owner is already cached.
\<close>

definition process_repr_raises :: "winprocess \<Rightarrow> error option" where
  "process_repr_raises self = (case WinProcess_name self of Inl e \<Rightarrow> Some e | Inr n \<Rightarrow> None)"

definition thread_repr_raises :: "winthread \<Rightarrow> error option" where
  "thread_repr_raises self =
     (case thread_owner self of
        Some (Some p) \<Rightarrow> process_repr_raises p
      | _ \<Rightarrow> None)"

text \<open>\<open>self.handle\<close> on a process and on a thread: the property of \<open>AutoHandle\<close>.\<close>

definition process_get_handle :: "os \<Rightarrow> winprocess \<Rightarrow> trace \<Rightarrow> (error + int) \<times> winprocess \<times> trace" where
  "process_get_handle os self tr =
     (case handle os \<lparr>cls = WinProcess, ident = th32ProcessID self, attr_handle = process_handle self,
                       repr_raises = process_repr_raises self\<rparr> tr of
        (r, ob, tr') \<Rightarrow> (r, self\<lparr>process_handle := attr_handle ob\<rparr>, tr'))"

definition thread_get_handle :: "os \<Rightarrow> winthread \<Rightarrow> trace \<Rightarrow> (error + int) \<times> winthread \<times> trace" where
  "thread_get_handle os self tr =
     (case handle os \<lparr>cls = WinThread, ident = th32ThreadID self, attr_handle = thread_handle self,
                       repr_raises = thread_repr_raises self\<rparr> tr of
        (r, ob, tr') \<Rightarrow> (r, self\<lparr>thread_handle := attr_handle ob\<rparr>, tr'))"

text \<open>
  \<open>Process.is_wow_64\<close>, cached in \<open>_is_wow_64\<close> by \<open>fixedpropety\<close>. Modelled from the
  spec: \<open>utils.is_wow_64\<close> is not among the modelled files; it asks \<open>IsWow64Process\<close>.
\<close>

definition is_wow_64 :: "os \<Rightarrow> winprocess \<Rightarrow> trace \<Rightarrow> (error + bool) \<times> winprocess \<times> trace" where
  "is_wow_64 os self tr =
     (case process_is_wow_64 self of
        Some b \<Rightarrow> (Inr b, self, tr)
      | None \<Rightarrow>
          (case process_get_handle os self tr of
             (Inl e, self', tr') \<Rightarrow> (Inl e, self', tr')
           | (Inr h, self', tr') \<Rightarrow>
               (case syscall os (IsWow64Process h) tr' of
                  (Inl e, tr'') \<Rightarrow> (Inl e, self', tr'')
                | (Inr v, tr'') \<Rightarrow> (Inr (v \<noteq> 0), self'\<lparr>process_is_wow_64 := Some (v \<noteq> 0)\<rparr>, tr''))))"

text \<open>
  \<open>Process.bitness\<close>, cached in \<open>_bitness\<close>. \<open>system_bitness\<close> is
  \<open>windows.system.bitness\<close>.
\<close>

definition bitness :: "int \<Rightarrow> os \<Rightarrow> winprocess \<Rightarrow> trace \<Rightarrow> (error + int) \<times> winprocess \<times> trace" where
  "bitness system_bitness os self tr =
     (case process_bitness self of
        Some b \<Rightarrow> (Inr b, self, tr)
      | None \<Rightarrow>
          if system_bitness = 32 then (Inr 32, self\<lparr>process_bitness := Some 32\<rparr>, tr)
          else (case is_wow_64 os self tr of
                  (Inl e, self', tr') \<Rightarrow> (Inl e, self', tr')
                | (Inr wow, self', tr') \<Rightarrow>
                    if wow then (Inr 32, self'\<lparr>process_bitness := Some 32\<rparr>, tr')
                    else (Inr 64, self'\<lparr>process_bitness := Some 64\<rparr>, tr')))"

text \<open>
  The body of \<open>WinThread.owner\<close>. \<open>processes\<close> is what evaluating
  \<open>windows.system.processes\<close> gives: the list of the enumeration, or its exception.
  With no process of the owner's pid, the index \<open>[0]\<close> raises \<open>IndexError\<close> and the
  handler returns \<open>None\<close>, leaving \<open>_owner\<close> unset.
\<close>

definition owner_body ::
  "(error + winprocess list) \<Rightarrow> winthread \<Rightarrow> (error + winprocess option) \<times> winthread" where
  "owner_body processes self =
     (case thread_owner self of
        Some v \<Rightarrow> (Inr v, self)
      | None \<Rightarrow>
          (case processes of
             Inl e \<Rightarrow> (Inl e, self)
           | Inr ps \<Rightarrow>
               (case filter (\<lambda>process. th32ProcessID process = th32OwnerProcessID self) ps of
                  [] \<Rightarrow> (Inr None, self)
                | p # _ \<Rightarrow> (Inr (Some p), self\<lparr>thread_owner := Some (Some p)\<rparr>))))"

text \<open>
  The property \<open>owner\<close> as \<open>fixedpropety\<close> builds it, with the cache name \<open>_owner\<close>:
  the attribute when it exists; otherwise the value of the body, stored in the
  attribute.
\<close>

definition owner ::
  "(error + winprocess list) \<Rightarrow> winthread \<Rightarrow> (error + winprocess option) \<times> winthread" where
  "owner processes self =
     (case thread_owner self of
        Some v \<Rightarrow> (Inr v, self)
      | None \<Rightarrow>
          (case owner_body processes self of
             (Inl e, self') \<Rightarrow> (Inl e, self')
           | (Inr v, self') \<Rightarrow> (Inr v, self'\<lparr>thread_owner := Some v\<rparr>)))"

text \<open>
  \<open>self.owner.bitness\<close>: reading \<open>bitness\<close> on \<open>None\<close> raises \<open>AttributeError\<close>; on a
  process the property is evaluated and the process, with its caches, stays the owner.
\<close>

definition owner_bitness ::
  "int \<Rightarrow> os \<Rightarrow> (error + winprocess list) \<Rightarrow> winthread \<Rightarrow> trace \<Rightarrow> (error + int) \<times> winthread \<times> trace" where
  "owner_bitness system_bitness os processes self tr =
     (case owner processes self of
        (Inl e, self') \<Rightarrow> (Inl e, self', tr)
      | (Inr None, self') \<Rightarrow> (Inl (AttributeError ''bitness''), self', tr)
      | (Inr (Some p), self') \<Rightarrow>
          (case bitness system_bitness os p tr of
             (r, p', tr') \<Rightarrow> (r, self'\<lparr>thread_owner := Some (Some p')\<rparr>, tr')))"

text \<open>The three context structures; the integer stands for what the kernel wrote in it.\<close>

datatype econtext = ECONTEXTWOW64 int | ECONTEXT64 int | ECONTEXT32 int

text \<open>Filling a context: \<open>self.handle\<close>, then the kernel call on it.\<close>

definition fetch_context ::
  "os \<Rightarrow> (int \<Rightarrow> econtext) \<Rightarrow> (int \<Rightarrow> kcall) \<Rightarrow> winthread \<Rightarrow> trace \<Rightarrow> (error + econtext) \<times> winthread \<times> trace" where
  "fetch_context os x call self tr =
     (case thread_get_handle os self tr of
        (Inl e, self', tr') \<Rightarrow> (Inl e, self', tr')
      | (Inr h, self', tr') \<Rightarrow>
          (case syscall os (call h) tr' of
             (Inl e, tr'') \<Rightarrow> (Inl e, self', tr'')
           | (Inr v, tr'') \<Rightarrow> (Inr (x v), self', tr'')))"

text \<open>
  \<open>WinThread.context\<close>. \<open>current_bitness\<close> is \<open>windows.current_process.bitness\<close>. The
  first test reads \<open>self.owner.bitness\<close>; the later tests read it again from the
  caches.
\<close>

definition "context" ::
  "int \<Rightarrow> int \<Rightarrow> os \<Rightarrow> (error + winprocess list) \<Rightarrow> winthread \<Rightarrow> trace \<Rightarrow> (error + econtext) \<times> winthread \<times> trace" where
  "context system_bitness current_bitness os processes self tr =
     (case owner_bitness system_bitness os processes self tr of
        (Inl e, self', tr') \<Rightarrow> (Inl e, self', tr')
      | (Inr b, self', tr') \<Rightarrow>
          if b = 32 \<and> current_bitness = 64
          then fetch_context os ECONTEXTWOW64 Wow64GetThreadContext self' tr'
          else if b = 64 \<and> current_bitness = 32
          then fetch_context os ECONTEXT64 NtGetContextThread_32_to_64 self' tr'
          else if b = 32
          then fetch_context os ECONTEXT32 GetThreadContext self' tr'
          else fetch_context os ECONTEXT64 GetThreadContext self' tr')"

text \<open>A kernel call on \<open>self.handle\<close> that returns an integer.\<close>

definition on_handle ::
  "os \<Rightarrow> (int \<Rightarrow> kcall) \<Rightarrow> winthread \<Rightarrow> trace \<Rightarrow> (error + int) \<times> winthread \<times> trace" where
  "on_handle os call self tr =
     (case thread_get_handle os self tr of
        (Inl e, self', tr') \<Rightarrow> (Inl e, self', tr')
      | (Inr h, self', tr') \<Rightarrow>
          (case syscall os (call h) tr' of (r, tr'') \<Rightarrow> (r, self', tr'')))"

text \<open>\<open>WinThread.set_context\<close>; \<open>ctx\<close> stands for the content of the context given.\<close>

definition set_context ::
  "int \<Rightarrow> int \<Rightarrow> os \<Rightarrow> (error + winprocess list) \<Rightarrow> winthread \<Rightarrow> int \<Rightarrow> trace \<Rightarrow> (error + int) \<times> winthread \<times> trace" where
  "set_context system_bitness current_bitness os processes self ctx tr =
     (case owner_bitness system_bitness os processes self tr of
        (Inl e, self', tr') \<Rightarrow> (Inl e, self', tr')
      | (Inr b, self', tr') \<Rightarrow>
          if b = current_bitness
          then on_handle os (\<lambda>h. SetThreadContext h ctx) self' tr'
          else if current_bitness = 64 \<and> b = 32
          then on_handle os (\<lambda>h. Wow64SetThreadContext h ctx) self' tr'
          else on_handle os (\<lambda>h. NtSetContextThread_32_to_64 h ctx) self' tr')"

text \<open>
  \<open>WinThread.start_address\<close>. With a controller that is not 32-bit the \<open>and\<close> of the
  first test does not read \<open>self.owner.bitness\<close>; the \<open>max\<close> below reads it. The size
  passed to \<open>NtQueryInformationThread\<close> is that of \<open>ULONG\<close> or of \<open>ULONGLONG\<close>.
\<close>

definition start_address ::
  "int \<Rightarrow> int \<Rightarrow> os \<Rightarrow> (error + winprocess list) \<Rightarrow> winthread \<Rightarrow> trace \<Rightarrow> (error + int) \<times> winthread \<times> trace" where
  "start_address system_bitness current_bitness os processes self tr =
     (case owner_bitness system_bitness os processes self tr of
        (Inl e, self', tr') \<Rightarrow> (Inl e, self', tr')
      | (Inr b, self', tr') \<Rightarrow>
          if current_bitness = 32 \<and> b = 64
          then on_handle os NtQueryInformationThread_32_to_64 self' tr'
          else if max b current_bitness = 32
          then on_handle os (\<lambda>h. NtQueryInformationThread h 4) self' tr'
          else on_handle os (\<lambda>h. NtQueryInformationThread h 8) self' tr')"

text \<open>Two processes of a system, a thread owned by one of them and a thread owned by neither.\<close>

definition system_process :: winprocess where
  "system_process = \<lparr>th32ProcessID = 4, th32ParentProcessID = 0, szExeFile = ''System'',
      process_handle = None, process_is_wow_64 = None, process_bitness = None\<rparr>"

definition explorer :: winprocess where
  "explorer = \<lparr>th32ProcessID = 1234, th32ParentProcessID = 4, szExeFile = ''explorer.exe'',
      process_handle = None, process_is_wow_64 = None, process_bitness = None\<rparr>"

definition blank_process :: winprocess where
  "blank_process = \<lparr>th32ProcessID = 0, th32ParentProcessID = 0, szExeFile = [],
      process_handle = None, process_is_wow_64 = None, process_bitness = None\<rparr>"

definition orphan_thread :: winthread where
  "orphan_thread = \<lparr>th32ThreadID = 77, th32OwnerProcessID = 999,
      thread_handle = None, thread_owner = None\<rparr>"

definition blank_thread :: winthread where
  "blank_thread = \<lparr>th32ThreadID = 0, th32OwnerProcessID = 0,
      thread_handle = None, thread_owner = None\<rparr>"

definition explorer_thread :: winthread where
  "explorer_thread = \<lparr>th32ThreadID = 78, th32OwnerProcessID = 1234,
      thread_handle = None, thread_owner = None\<rparr>"

section \<open>The memory enumeration of a process object\<close>

text \<open>
  \<open>Process.query_memory\<close> on the object itself: \<open>self.bitness\<close> and \<open>self.handle\<close> are
  evaluated where the source evaluates them, and each stores what it computes in the
  object. \<open>self.bitness\<close> is read only when the current process has 32 bits; on the
  32-to-64 branch \<open>self.handle\<close> is read inside the \<open>try\<close>; on the other branch the
  table \<open>info_type\<close> is indexed before \<open>self.handle\<close> is read.
\<close>

definition Process_query_memory ::
  "vm_kernel \<Rightarrow> int \<Rightarrow> int \<Rightarrow> os \<Rightarrow> winprocess \<Rightarrow> int \<Rightarrow> trace \<Rightarrow>
     (error + region) \<times> winprocess \<times> trace" where
  "Process_query_memory K current_bitness system_bitness os self addr tr =
     (let plain = (\<lambda>self tr.
            if current_bitness = 32 \<or> current_bitness = 64 then
              (case process_get_handle os self tr of
                 (Inl e, self', tr') \<Rightarrow> (Inl e, self', tr')
               | (Inr h, self', tr') \<Rightarrow> (VirtualQueryEx K h addr, self', tr'))
            else (Inl KeyError, self, tr))
      in if current_bitness = 32 then
           (case bitness system_bitness os self tr of
              (Inl e, self', tr') \<Rightarrow> (Inl e, self', tr')
            | (Inr b, self', tr') \<Rightarrow>
                if b = 64 then
                  (case process_get_handle os self' tr' of
                     (Inl e, self'', tr'') \<Rightarrow> (Inl (convert_status e), self'', tr'')
                   | (Inr h, self'', tr'') \<Rightarrow>
                       (case NtQueryVirtualMemory_32_to_64 K h addr of
                          Inl e \<Rightarrow> (Inl (convert_status e), self'', tr'')
                        | Inr res \<Rightarrow> (Inr res, self'', tr'')))
                else plain self' tr')
         else plain self tr)"

text \<open>
  \<open>Process.memory_state\<close> on the object: every iteration calls \<open>self.query_memory\<close> on
  the object as the iteration before left it. The result is the list of the regions
  yielded, how the iteration ended, the object and the kernel calls made.
\<close>

partial_function (option) Process_memory_state_loop ::
  "vm_kernel \<Rightarrow> int \<Rightarrow> int \<Rightarrow> os \<Rightarrow> winprocess \<Rightarrow> int \<Rightarrow> region list \<Rightarrow> trace \<Rightarrow>
     ((region list \<times> error option) \<times> winprocess \<times> trace) option" where
  "Process_memory_state_loop K current_bitness system_bitness os self addr yielded tr =
     (case Process_query_memory K current_bitness system_bitness os self addr tr of
        (Inl e, self', tr') \<Rightarrow>
          Some ((yielded, if is_Kernel32Error e then None else Some e), self', tr')
      | (Inr x, self', tr') \<Rightarrow>
          Process_memory_state_loop K current_bitness system_bitness os self'
            (addr + RegionSize x) (yielded @ [x]) tr')"

definition Process_memory_state ::
  "vm_kernel \<Rightarrow> int \<Rightarrow> int \<Rightarrow> os \<Rightarrow> winprocess \<Rightarrow> trace \<Rightarrow>
     ((region list \<times> error option) \<times> winprocess \<times> trace) option" where
  "Process_memory_state K current_bitness system_bitness os self tr =
     Process_memory_state_loop K current_bitness system_bitness os self 0 [] tr"

text \<open>
  A process whose executable name holds the byte \<open>0xE9\<close>, as \<open>PROCESSENTRY32\<close> gives it
  for a name with an accented letter.
\<close>

definition cafe :: winprocess where
  "cafe = \<lparr>th32ProcessID = 1234, th32ParentProcessID = 4, szExeFile = ''caf'' @ [CHR 0xE9] @ ''.exe'',
      process_handle = None, process_is_wow_64 = None, process_bitness = None\<rparr>"

section \<open>Handle lifecycle\<close>

lemma call_meth_inv:
  "closes (snd (call_meth os m self tr)) = closes tr
   \<and> cls (fst (call_meth os m self tr)) = cls self
   \<and> repr_raises (fst (call_meth os m self tr)) = repr_raises self"
  apply (cases m; cases "cls self"; cases "attr_handle self"; cases "repr_raises self")
  apply (auto simp: call_meth_def handle_def wait_def exit_def AutoHandle_wait_def CurrentThread_wait_def
     CurrentProcess_wait_def get_handle_def syscall_def closes_def is_close_def format_self_def
     split: sum.splits prod.splits)
  done

lemma call_meth_keeps_handle:
  "attr_handle self = Some h \<Longrightarrow> attr_handle (fst (call_meth os m self tr)) = Some h"
  by (cases m; cases "cls self")
     (auto simp: call_meth_def handle_def wait_def exit_def AutoHandle_wait_def CurrentThread_wait_def
        CurrentProcess_wait_def syscall_def split: sum.splits prod.splits)

lemma call_meths_inv:
  "closes (snd (call_meths os ms self tr)) = closes tr
   \<and> cls (fst (call_meths os ms self tr)) = cls self
   \<and> repr_raises (fst (call_meths os ms self tr)) = repr_raises self"
proof (induction ms arbitrary: self tr)
  case Nil
  show ?case by simp
next
  case (Cons m ms)
  obtain self' tr' where s: "call_meth os m self tr = (self', tr')" by (cases "call_meth os m self tr")
  with call_meth_inv [of os m self tr]
  have "closes tr' = closes tr" "cls self' = cls self" "repr_raises self' = repr_raises self"
    by simp_all
  with Cons.IH [of self' tr'] s show ?case by simp
qed

lemma call_meths_keeps_handle:
  "attr_handle self = Some h \<Longrightarrow> attr_handle (fst (call_meths os ms self tr)) = Some h"
proof (induction ms arbitrary: self tr)
  case Nil
  then show ?case by simp
next
  case (Cons m ms)
  obtain self' tr' where s: "call_meth os m self tr = (self', tr')" by (cases "call_meth os m self tr")
  with call_meth_keeps_handle [OF Cons.prems, of os m tr] have "attr_handle self' = Some h" by simp
  with Cons.IH [of self' tr'] s show ?case by simp
qed

lemma del_closes:
  "closes (del self tr) =
     closes tr @ (if pseudo (cls self) \<or> format_self self \<noteq> None then [] else owned_closes self)"
  by (cases "cls self"; cases "attr_handle self"; cases "repr_raises self")
     (simp_all add: del_def AutoHandle_del_def pseudo_def owned_closes_def closes_def is_close_def
        format_self_def)

text \<open>
  Over the life of an object (any calls of \<open>handle\<close>, \<open>wait\<close> and \<open>exit\<close>, in any order,
  against any kernel, then \<open>__del__\<close>) the \<open>CloseHandle\<close> calls are: none for
  \<open>CurrentProcess\<close> and \<open>CurrentThread\<close>; none when formatting the object raises; and
  otherwise exactly one, on the stored handle, when \<open>_handle\<close> exists and is not zero at
  destruction. A handle that is stored is never replaced.
\<close>

lemma closes_over_lifetime:
  "closes (snd (lifetime os ms self)) =
     (if pseudo (cls self) \<or> format_self self \<noteq> None then []
      else owned_closes (fst (lifetime os ms self)))
   \<and> (case attr_handle self of
        Some h \<Rightarrow> attr_handle (fst (lifetime os ms self)) = Some h
      | None \<Rightarrow> True)"
proof -
  obtain self' tr where s: "call_meths os ms self [] = (self', tr)"
    by (cases "call_meths os ms self []")
  with call_meths_inv [of os ms self "[]"]
  have i: "closes tr = []" "cls self' = cls self" "repr_raises self' = repr_raises self"
    by (simp_all add: closes_def)
  then have f: "format_self self' = format_self self"
    by (cases "cls self") (simp_all add: format_self_def)
  have l: "lifetime os ms self = (self', del self' tr)" using s by (simp add: lifetime_def)
  have "closes (del self' tr) =
          (if pseudo (cls self) \<or> format_self self \<noteq> None then [] else owned_closes self')"
    using i f by (simp add: del_closes)
  moreover have "attr_handle self = Some h \<Longrightarrow> attr_handle self' = Some h" for h
    using call_meths_keeps_handle [of self h os ms "[]"] s by simp
  ultimately show ?thesis using l by (simp split: option.split)
qed

text \<open>
  C1. The claim holds for the objects whose \<open>__repr__\<close> returns, and fails for the
  others. The process \<open>cafe\<close>, whose executable name does not decode, is the object
  \<open>undecodable_process\<close>: it acquires the handle \<open>44\<close> through \<open>handle\<close> (the property
  raises after storing it), and its \<open>__del__\<close> leaves before the close function is
  called. The handle is stored and not zero, and \<open>CloseHandle\<close> is called zero times.
  The same process with a name that decodes closes the handle once.
\<close>

theorem handle_not_closed_when_repr_raises:
  "\<lparr>cls = WinProcess, ident = th32ProcessID cafe, attr_handle = process_handle cafe,
     repr_raises = process_repr_raises cafe\<rparr> = undecodable_process
   \<and> lifetime (\<lambda>c. Inr 44) [M_handle] undecodable_process =
     (undecodable_process\<lparr>attr_handle := Some 44\<rparr>, [OpenProcess 1234])
   \<and> fst (handle (\<lambda>c. Inr 44) undecodable_process []) = Inl UnicodeDecodeError
   \<and> owned_closes (fst (lifetime (\<lambda>c. Inr 44) [M_handle] undecodable_process)) = [CloseHandle 44]
   \<and> closes (snd (lifetime (\<lambda>c. Inr 44) [M_handle] undecodable_process)) = []
   \<and> lifetime (\<lambda>c. Inr 44) [M_handle] plain_process =
       (plain_process\<lparr>attr_handle := Some 44\<rparr>, [OpenProcess 1234, CloseHandle 44])"
proof -
  have "process_repr_raises cafe = Some UnicodeDecodeError"
    by (simp add: process_repr_raises_def WinProcess_name_def cafe_def)
  then have c: "\<lparr>cls = WinProcess, ident = th32ProcessID cafe, attr_handle = process_handle cafe,
     repr_raises = process_repr_raises cafe\<rparr> = undecodable_process"
    by (simp add: undecodable_process_def cafe_def)
  have "lifetime (\<lambda>c. Inr 44) [M_handle] undecodable_process =
     (undecodable_process\<lparr>attr_handle := Some 44\<rparr>, [OpenProcess 1234])
   \<and> fst (handle (\<lambda>c. Inr 44) undecodable_process []) = Inl UnicodeDecodeError
   \<and> owned_closes (fst (lifetime (\<lambda>c. Inr 44) [M_handle] undecodable_process)) = [CloseHandle 44]
   \<and> closes (snd (lifetime (\<lambda>c. Inr 44) [M_handle] undecodable_process)) = []
   \<and> lifetime (\<lambda>c. Inr 44) [M_handle] plain_process =
       (plain_process\<lparr>attr_handle := Some 44\<rparr>, [OpenProcess 1234, CloseHandle 44])"
    by (simp add: lifetime_def call_meth_def handle_def get_handle_def syscall_def del_def
        AutoHandle_del_def format_self_def undecodable_process_def plain_process_def
        owned_closes_def closes_def is_close_def)
  with c show ?thesis by blast
qed

text \<open>
  C9. For every timeout, \<open>wait\<close> on a \<open>CurrentThread\<close> raises
  \<open>ValueError("wait() on current thread")\<close>, the exception behind the specification's
  WouldDeadlock, and the trace of kernel calls is left as it was: no handle is
  fetched and \<open>WaitForSingleObject\<close> is not called.
\<close>

theorem current_thread_wait_would_deadlock:
  "wait os (self\<lparr>cls := CurrentThread\<rparr>) timeout tr =
     (Inl (ValueError ''wait() on current thread''), self\<lparr>cls := CurrentThread\<rparr>, tr)"
  by (simp add: wait_def CurrentThread_wait_def)

section \<open>The address of the PEB: a null pointer from the kernel\<close>

text \<open>
  C6. When the kernel reports a null \<open>PebBaseAddress\<close>, \<open>peb_addr\<close> raises the
  \<open>ValueError\<close> behind the specification's PebUnavailable only where controller and
  target have the same bitness. On the two cross-bitness branches the value is the
  integer \<open>0\<close>, never \<open>None\<close>, so the test \<open>peb_addr is None\<close> lets it through and
  \<open>peb_addr\<close> returns the null address.
\<close>

theorem peb_addr_null_cross_bitness:
  "peb_addr null_peb_kernel 48 8 32 (Inr 64) (Inr h) name = Inr 0
   \<and> peb_addr null_peb_kernel 48 8 64 (Inr 32) (Inr h) name = Inr 0
   \<and> peb_addr null_peb_kernel 48 8 64 (Inr 64) (Inr h) name =
        Inl (ValueError (''Could not get peb addr of process '' @ name))
   \<and> peb_addr null_peb_kernel 48 8 32 (Inr 32) (Inr h) name =
        Inl (ValueError (''Could not get peb addr of process '' @ name))"
  by (simp add: peb_addr_def peb_addr_32_to_64_def peb_addr_64_to_32_def peb_addr_same_def
      null_peb_kernel_def filled_def unpack_Q_def c_void_p_value_def eval_nat_numeral)

section \<open>The module walk\<close>

text \<open>
  C7. When the \<open>Ldr\<close> field of the PEB reads as null, every walk fails with a
  \<open>ValueError\<close>, the exception behind the specification's LdrUnavailable, whatever
  the memory holds elsewhere (address zero included), so nothing is read through the
  pointer: the three remote walks by their own test, the local walk by the null test
  of \<open>contents\<close>.
\<close>

theorem null_ldr_fails:
  assumes "rd (self + off_Ldr L) = Inr 0"
  shows "RemotePEB_modules rd L current_bitness self =
           Some (Inl (ValueError ''PEB->Ldr is NULL: cannot walk the module list''))
       \<and> RemotePEB64_modules rd L self =
           Some (Inl (ValueError ''PEB->Ldr is NULL: cannot walk the module list''))
       \<and> RemotePEB32_modules rd L self =
           Some (Inl (ValueError ''PEB->Ldr is NULL: cannot walk the module list''))
       \<and> PEB_modules rd L current_bitness self = Some (Inl (ValueError ''NULL pointer access''))"
  using assms
  by (simp add: RemotePEB_modules_def RemotePEB64_modules_def RemotePEB32_modules_def
      remote_modules_def PEB_modules_def)

theorem null_ldr_fails_witness:
  "null_ldr_mem (0x1000 + off_Ldr layout64) = Inr 0
   \<and> RemotePEB_modules null_ldr_mem layout64 64 0x1000 =
           Some (Inl (ValueError ''PEB->Ldr is NULL: cannot walk the module list''))
   \<and> RemotePEB64_modules null_ldr_mem layout64 0x1000 =
           Some (Inl (ValueError ''PEB->Ldr is NULL: cannot walk the module list''))
   \<and> RemotePEB32_modules null_ldr_mem layout64 0x1000 =
           Some (Inl (ValueError ''PEB->Ldr is NULL: cannot walk the module list''))
   \<and> PEB_modules null_ldr_mem layout64 64 0x1000 = Some (Inl (ValueError ''NULL pointer access''))"
proof -
  have h: "null_ldr_mem (0x1000 + off_Ldr layout64) = Inr 0"
    by (simp add: null_ldr_mem_def layout64_def)
  show ?thesis using h null_ldr_fails [of null_ldr_mem "0x1000" layout64 64] by simp
qed

lemma remote_walk_reaches_sentinel:
  assumes "\<forall>i<n. \<exists>c. entry_after rd L psz i cur = Some c \<and> loaded rd L c"
      and "entry_after rd L psz n cur = Some c"
      and "rd (c + off_DllBase L) = Inr 0"
  shows "remote_walk rd L psz cur res =
           Some (Inr (res @ map (\<lambda>i. the (entry_after rd L psz i cur)) [0..<n]))"
  using assms
proof (induction n arbitrary: cur res)
  case 0
  then show ?case by (subst remote_walk.simps) simp
next
  case (Suc n)
  from Suc.prems(1) have "loaded rd L cur" by (auto dest: spec [of _ 0])
  then obtain b where b: "rd (cur + off_DllBase L) = Inr b" "b \<noteq> 0"
    by (auto simp: loaded_def split: sum.splits)
  from Suc.prems(2) obtain p where p: "rd (cur + off_InMemoryOrderLinks L) = Inr p"
      and nx: "entry_after rd L psz n (p - psz * 2) = Some c"
    by (auto split: sum.splits)
  have ch: "\<forall>i<n. \<exists>c. entry_after rd L psz i (p - psz * 2) = Some c \<and> loaded rd L c"
  proof (intro allI impI)
    fix i assume "i < n"
    then have "Suc i < Suc n" by simp
    with Suc.prems(1) obtain c' where "entry_after rd L psz (Suc i) cur = Some c'" "loaded rd L c'"
      by blast
    with p show "\<exists>c. entry_after rd L psz i (p - psz * 2) = Some c \<and> loaded rd L c" by simp
  qed
  have sh: "map (\<lambda>i. the (entry_after rd L psz i cur)) [0..<Suc n] =
        cur # map (\<lambda>i. the (entry_after rd L psz i (p - psz * 2))) [0..<n]"
    using p by (simp add: upt_conv_Cons map_Suc_upt [symmetric] del: upt_Suc)
  have "remote_walk rd L psz cur res = remote_walk rd L psz (p - psz * 2) (res @ [cur])"
    using b p by (subst remote_walk.simps) simp
  also have "\<dots> = Some (Inr ((res @ [cur]) @ map (\<lambda>i. the (entry_after rd L psz i (p - psz * 2))) [0..<n]))"
    by (rule Suc.IH [OF ch nx Suc.prems(3)])
  finally show ?case using sh by simp
qed

lemma local_walk_reaches_sentinel:
  assumes "\<forall>i<n. \<exists>c. entry_after rd L psz i cur = Some c \<and> linked rd L c"
      and "entry_after rd L psz n cur = Some c"
      and "rd (c + off_DllBase L) = Inr 0"
  shows "local_walk rd L psz cur res =
           Some (Inr (res @ map (\<lambda>i. the (entry_after rd L psz i cur)) [0..<n]))"
  using assms
proof (induction n arbitrary: cur res)
  case 0
  then show ?case by (subst local_walk.simps) simp
next
  case (Suc n)
  from Suc.prems(1) have lk: "linked rd L cur" by (auto dest: spec [of _ 0])
  then obtain b where b: "rd (cur + off_DllBase L) = Inr b" "b \<noteq> 0"
    by (auto simp: linked_def loaded_def split: sum.splits)
  from Suc.prems(2) obtain p where p: "rd (cur + off_InMemoryOrderLinks L) = Inr p"
      and nx: "entry_after rd L psz n (p - psz * 2) = Some c"
    by (auto split: sum.splits)
  from lk p have p0: "p \<noteq> 0" by (auto simp: linked_def)
  have ch: "\<forall>i<n. \<exists>c. entry_after rd L psz i (p - psz * 2) = Some c \<and> linked rd L c"
  proof (intro allI impI)
    fix i assume "i < n"
    then have "Suc i < Suc n" by simp
    with Suc.prems(1) obtain c' where "entry_after rd L psz (Suc i) cur = Some c'" "linked rd L c'"
      by blast
    with p show "\<exists>c. entry_after rd L psz i (p - psz * 2) = Some c \<and> linked rd L c" by simp
  qed
  have sh: "map (\<lambda>i. the (entry_after rd L psz i cur)) [0..<Suc n] =
        cur # map (\<lambda>i. the (entry_after rd L psz i (p - psz * 2))) [0..<n]"
    using p by (simp add: upt_conv_Cons map_Suc_upt [symmetric] del: upt_Suc)
  have "local_walk rd L psz cur res = local_walk rd L psz (p - psz * 2) (res @ [cur])"
    using b p p0 by (subst local_walk.simps) (simp add: TO_LDR_ENTRY_def c_void_p_value_def)
  also have "\<dots> = Some (Inr ((res @ [cur]) @ map (\<lambda>i. the (entry_after rd L psz i (p - psz * 2))) [0..<n]))"
    by (rule Suc.IH [OF ch nx Suc.prems(3)])
  finally show ?case using sh by simp
qed

lemma remote_walk_returns_only_if_chain_ends:
  assumes "remote_walk rd L psz cur res = Some y"
  shows "\<not> (\<forall>i. \<exists>c. entry_after rd L psz i cur = Some c \<and> loaded rd L c)"
proof (rule remote_walk.raw_induct
    [where P = "\<lambda>rd L psz cur res y.
                  \<not> (\<forall>i. \<exists>c. entry_after rd L psz i cur = Some c \<and> loaded rd L c)",
     OF _ assms])
  fix f :: "reader \<Rightarrow> layout \<Rightarrow> int \<Rightarrow> int \<Rightarrow> int list \<Rightarrow> (error + int list) option"
  fix rd L psz current_dll res y
  assume IH: "\<And>rd L psz cur res y. f rd L psz cur res = Some y \<Longrightarrow>
                \<not> (\<forall>i. \<exists>c. entry_after rd L psz i cur = Some c \<and> loaded rd L c)"
    and body: "(case rd (current_dll + off_DllBase L) of
                  Inl e \<Rightarrow> Some (Inl e)
                | Inr DllBase \<Rightarrow>
                    if DllBase = 0 then Some (Inr res)
                    else (case rd (current_dll + off_InMemoryOrderLinks L) of
                            Inl e \<Rightarrow> Some (Inl e)
                          | Inr list_entry_ptr \<Rightarrow>
                              f rd L psz (list_entry_ptr - psz * 2) (res @ [current_dll]))) = Some y"
  show "\<not> (\<forall>i. \<exists>c. entry_after rd L psz i current_dll = Some c \<and> loaded rd L c)"
  proof
    assume all: "\<forall>i. \<exists>c. entry_after rd L psz i current_dll = Some c \<and> loaded rd L c"
    from all have "\<exists>c. entry_after rd L psz 0 current_dll = Some c \<and> loaded rd L c" by blast
    then have "loaded rd L current_dll" by simp
    then obtain b where b: "rd (current_dll + off_DllBase L) = Inr b" "b \<noteq> 0"
      by (auto simp: loaded_def split: sum.splits)
    from all have "\<exists>c. entry_after rd L psz (Suc 0) current_dll = Some c \<and> loaded rd L c" by blast
    then obtain p where p: "rd (current_dll + off_InMemoryOrderLinks L) = Inr p"
      by (auto split: sum.splits)
    from body b p have "f rd L psz (p - psz * 2) (res @ [current_dll]) = Some y" by simp
    from IH [OF this]
    have n: "\<not> (\<forall>i. \<exists>c. entry_after rd L psz i (p - psz * 2) = Some c \<and> loaded rd L c)" .
    have "\<forall>i. \<exists>c. entry_after rd L psz i (p - psz * 2) = Some c \<and> loaded rd L c"
    proof
      fix i
      from all have "\<exists>c. entry_after rd L psz (Suc i) current_dll = Some c \<and> loaded rd L c" by blast
      with p show "\<exists>c. entry_after rd L psz i (p - psz * 2) = Some c \<and> loaded rd L c" by simp
    qed
    with n show False by blast
  qed
qed

lemma local_walk_returns_only_if_chain_ends:
  assumes "local_walk rd L psz cur res = Some y"
  shows "\<not> (\<forall>i. \<exists>c. entry_after rd L psz i cur = Some c \<and> linked rd L c)"
proof (rule local_walk.raw_induct
    [where P = "\<lambda>rd L psz cur res y.
                  \<not> (\<forall>i. \<exists>c. entry_after rd L psz i cur = Some c \<and> linked rd L c)",
     OF _ assms])
  fix f :: "reader \<Rightarrow> layout \<Rightarrow> int \<Rightarrow> int \<Rightarrow> int list \<Rightarrow> (error + int list) option"
  fix rd L psz current_dll res y
  assume IH: "\<And>rd L psz cur res y. f rd L psz cur res = Some y \<Longrightarrow>
                \<not> (\<forall>i. \<exists>c. entry_after rd L psz i cur = Some c \<and> linked rd L c)"
    and body: "(case rd (current_dll + off_DllBase L) of
                  Inl e \<Rightarrow> Some (Inl e)
                | Inr DllBase \<Rightarrow>
                    if DllBase = 0 then Some (Inr res)
                    else (case rd (current_dll + off_InMemoryOrderLinks L) of
                            Inl e \<Rightarrow> Some (Inl e)
                          | Inr Flink \<Rightarrow>
                              (case TO_LDR_ENTRY psz Flink of
                                 Inl e \<Rightarrow> Some (Inl e)
                               | Inr next_dll \<Rightarrow> f rd L psz next_dll (res @ [current_dll])))) = Some y"
  show "\<not> (\<forall>i. \<exists>c. entry_after rd L psz i current_dll = Some c \<and> linked rd L c)"
  proof
    assume all: "\<forall>i. \<exists>c. entry_after rd L psz i current_dll = Some c \<and> linked rd L c"
    from all have "\<exists>c. entry_after rd L psz 0 current_dll = Some c \<and> linked rd L c" by blast
    then have lk: "linked rd L current_dll" by simp
    then obtain b where b: "rd (current_dll + off_DllBase L) = Inr b" "b \<noteq> 0"
      by (auto simp: linked_def loaded_def split: sum.splits)
    from all have "\<exists>c. entry_after rd L psz (Suc 0) current_dll = Some c \<and> linked rd L c" by blast
    then obtain p where p: "rd (current_dll + off_InMemoryOrderLinks L) = Inr p"
      by (auto split: sum.splits)
    from lk p have "p \<noteq> 0" by (auto simp: linked_def)
    with body b p have "f rd L psz (p - psz * 2) (res @ [current_dll]) = Some y"
      by (simp add: TO_LDR_ENTRY_def c_void_p_value_def)
    from IH [OF this]
    have n: "\<not> (\<forall>i. \<exists>c. entry_after rd L psz i (p - psz * 2) = Some c \<and> linked rd L c)" .
    have "\<forall>i. \<exists>c. entry_after rd L psz i (p - psz * 2) = Some c \<and> linked rd L c"
    proof
      fix i
      from all have "\<exists>c. entry_after rd L psz (Suc i) current_dll = Some c \<and> linked rd L c" by blast
      with p show "\<exists>c. entry_after rd L psz i (p - psz * 2) = Some c \<and> linked rd L c" by simp
    qed
    with n show False by blast
  qed
qed

lemma walks_endless:
  assumes "\<forall>i. \<exists>c. entry_after rd L psz i cur = Some c \<and> linked rd L c"
  shows "remote_walk rd L psz cur res = None" and "local_walk rd L psz cur res = None"
proof -
  from assms have "\<forall>i. \<exists>c. entry_after rd L psz i cur = Some c \<and> loaded rd L c"
    by (auto simp: linked_def)
  with remote_walk_returns_only_if_chain_ends [of rd L psz cur res]
  show "remote_walk rd L psz cur res = None"
    by (cases "remote_walk rd L psz cur res") auto
  from assms local_walk_returns_only_if_chain_ends [of rd L psz cur res]
  show "local_walk rd L psz cur res = None"
    by (cases "local_walk rd L psz cur res") auto
qed

lemma circular_chain:
  "entry_after circular_mem layout64 8 i 0x3000 = Some 0x3000"
  by (induction i) (simp_all add: circular_mem_def layout64_def)

lemma circular_linked: "linked circular_mem layout64 0x3000"
  by (simp add: linked_def loaded_def circular_mem_def layout64_def)

text \<open>
  C2, amended. The walks have no bound on the number of entries and no error for a
  list that is too long. With \<open>Ldr\<close> and the list head not null: when the chain of
  \<open>Flink\<close> pointers reaches, after \<open>n\<close> entries with a non-zero \<open>DllBase\<close> and a non-null
  \<open>Flink\<close>, an entry whose \<open>DllBase\<close> is zero, the remote walks and the local walk
  return those \<open>n\<close> entries in list order, for every \<open>n\<close>; when every entry that the
  chain reaches has a non-zero \<open>DllBase\<close> and a readable, non-null \<open>Flink\<close>, as on a
  circular list, the walks never return.
\<close>

theorem modules_walk_no_bound:
  assumes "rd (self + off_Ldr L) = Inr Ldr" and "Ldr \<noteq> 0"
      and "rd (Ldr + off_InMemoryOrderModuleList L) = Inr p" and "p \<noteq> 0"
  shows "((\<forall>i<n. \<exists>c. entry_after rd L psz i (p - psz * 2) = Some c \<and> linked rd L c)
          \<and> entry_after rd L psz n (p - psz * 2) = Some c
          \<and> rd (c + off_DllBase L) = Inr 0 \<longrightarrow>
            remote_modules rd L psz self =
              Some (Inr (map (\<lambda>i. the (entry_after rd L psz i (p - psz * 2))) [0..<n]))
            \<and> PEB_modules rd L (psz * 8) self =
              Some (Inr (map (\<lambda>i. the (entry_after rd L psz i (p - psz * 2))) [0..<n])))
       \<and> ((\<forall>i. \<exists>c. entry_after rd L psz i (p - psz * 2) = Some c \<and> linked rd L c) \<longrightarrow>
            remote_modules rd L psz self = None \<and> PEB_modules rd L (psz * 8) self = None)"
proof (intro conjI impI)
  assume e: "\<forall>i. \<exists>c. entry_after rd L psz i (p - psz * 2) = Some c \<and> linked rd L c"
  show "remote_modules rd L psz self = None"
    using assms walks_endless(1) [OF e, of "[]"] by (simp add: remote_modules_def)
  show "PEB_modules rd L (psz * 8) self = None"
    using assms walks_endless(2) [OF e, of "[]"]
    by (simp add: PEB_modules_def TO_LDR_ENTRY_def c_void_p_value_def)
next
  assume a: "(\<forall>i<n. \<exists>c. entry_after rd L psz i (p - psz * 2) = Some c \<and> linked rd L c)
          \<and> entry_after rd L psz n (p - psz * 2) = Some c
          \<and> rd (c + off_DllBase L) = Inr 0"
  then have lk: "\<forall>i<n. \<exists>c. entry_after rd L psz i (p - psz * 2) = Some c \<and> linked rd L c"
      and en: "entry_after rd L psz n (p - psz * 2) = Some c"
      and z: "rd (c + off_DllBase L) = Inr 0" by simp_all
  from lk have ld: "\<forall>i<n. \<exists>c. entry_after rd L psz i (p - psz * 2) = Some c \<and> loaded rd L c"
    by (auto simp: linked_def)
  show "remote_modules rd L psz self =
          Some (Inr (map (\<lambda>i. the (entry_after rd L psz i (p - psz * 2))) [0..<n]))"
    using assms remote_walk_reaches_sentinel [OF ld en z, of "[]"]
    by (simp add: remote_modules_def)
  show "PEB_modules rd L (psz * 8) self =
          Some (Inr (map (\<lambda>i. the (entry_after rd L psz i (p - psz * 2))) [0..<n]))"
    using assms local_walk_reaches_sentinel [OF lk en z, of "[]"]
    by (simp add: PEB_modules_def TO_LDR_ENTRY_def c_void_p_value_def)
qed

theorem modules_walk_no_bound_witness:
  "two_modules_mem (0x1000 + off_Ldr layout64) = Inr 0x2000
   \<and> two_modules_mem (0x2000 + off_InMemoryOrderModuleList layout64) = Inr 0x3010
   \<and> linked two_modules_mem layout64 0x3000 \<and> linked two_modules_mem layout64 0x4000
   \<and> entry_after two_modules_mem layout64 8 2 (0x3010 - 8 * 2) = Some 0x2010
   \<and> two_modules_mem (0x2010 + off_DllBase layout64) = Inr 0
   \<and> RemotePEB64_modules two_modules_mem layout64 0x1000 = Some (Inr [0x3000, 0x4000])
   \<and> PEB_modules two_modules_mem layout64 64 0x1000 = Some (Inr [0x3000, 0x4000])
   \<and> circular_mem (0x1000 + off_Ldr layout64) = Inr 0x2000
   \<and> circular_mem (0x2000 + off_InMemoryOrderModuleList layout64) = Inr 0x3010
   \<and> linked circular_mem layout64 0x3000
   \<and> remote_modules circular_mem layout64 8 0x1000 = None
   \<and> PEB_modules circular_mem layout64 (8 * 8) 0x1000 = None"
proof -
  have e: "entry_after two_modules_mem layout64 8 0 0x3000 = Some 0x3000"
          "entry_after two_modules_mem layout64 8 (Suc 0) 0x3000 = Some 0x4000"
          "entry_after two_modules_mem layout64 8 (Suc (Suc 0)) 0x3000 = Some 0x2010"
    by (simp_all add: two_modules_mem_def layout64_def)
  have l: "linked two_modules_mem layout64 0x3000" "linked two_modules_mem layout64 0x4000"
    by (simp_all add: linked_def loaded_def two_modules_mem_def layout64_def)
  have c: "\<forall>i<2. \<exists>c. entry_after two_modules_mem layout64 8 i (0x3010 - 8 * 2) = Some c
             \<and> linked two_modules_mem layout64 c"
    using e l by (simp add: numeral_2_eq_2 All_less_Suc)
  have r: "two_modules_mem (0x1000 + off_Ldr layout64) = Inr 0x2000"
          "two_modules_mem (0x2000 + off_InMemoryOrderModuleList layout64) = Inr 0x3010"
          "two_modules_mem (0x2010 + off_DllBase layout64) = Inr 0"
    by (simp_all add: two_modules_mem_def layout64_def)
  have n: "entry_after two_modules_mem layout64 8 2 (0x3010 - 8 * 2) = Some 0x2010"
    using e by (simp add: numeral_2_eq_2)
  have "(0x2000::int) \<noteq> 0" "(0x3010::int) \<noteq> 0" by simp_all
  from modules_walk_no_bound [OF r(1) this(1) r(2) this(2), of 2 8 "0x2010"] c n r(3)
  have "remote_modules two_modules_mem layout64 8 0x1000 =
          Some (Inr (map (\<lambda>i. the (entry_after two_modules_mem layout64 8 i (0x3010 - 8 * 2))) [0..<2]))
        \<and> PEB_modules two_modules_mem layout64 (8 * 8) 0x1000 =
          Some (Inr (map (\<lambda>i. the (entry_after two_modules_mem layout64 8 i (0x3010 - 8 * 2))) [0..<2]))"
    by blast
  then have t: "RemotePEB64_modules two_modules_mem layout64 0x1000 = Some (Inr [0x3000, 0x4000])
       \<and> PEB_modules two_modules_mem layout64 64 0x1000 = Some (Inr [0x3000, 0x4000])"
    using e by (simp add: RemotePEB64_modules_def numeral_2_eq_2)
  have cr: "circular_mem (0x1000 + off_Ldr layout64) = Inr 0x2000"
           "circular_mem (0x2000 + off_InMemoryOrderModuleList layout64) = Inr 0x3010"
    by (simp_all add: circular_mem_def layout64_def)
  have cc: "\<forall>i. \<exists>c. entry_after circular_mem layout64 8 i (0x3010 - 8 * 2) = Some c
             \<and> linked circular_mem layout64 c"
    using circular_chain circular_linked by simp
  have "(0x2000::int) \<noteq> 0" "(0x3010::int) \<noteq> 0" by simp_all
  from modules_walk_no_bound [OF cr(1) this(1) cr(2) this(2), of 0 8 0] cc
  have d: "remote_modules circular_mem layout64 8 0x1000 = None
           \<and> PEB_modules circular_mem layout64 (8 * 8) 0x1000 = None"
    by blast
  from r n l t cr circular_linked d show ?thesis by simp
qed

text \<open>
  C2, as stated, fails: on a list whose only entry links to itself, the remote walk
  and the local walk never return, so neither stops after 4096 iterations and
  neither raises an error.
\<close>

theorem circular_list_walk_diverges:
  "RemotePEB64_modules circular_mem layout64 0x1000 = None
   \<and> PEB_modules circular_mem layout64 64 0x1000 = None"
proof -
  have "\<forall>i. \<exists>c. entry_after circular_mem layout64 8 i 0x3000 = Some c \<and> linked circular_mem layout64 c"
    using circular_chain circular_linked by simp
  from walks_endless [OF this, of "[]"] show ?thesis
    by (simp add: RemotePEB64_modules_def remote_modules_def PEB_modules_def circular_mem_def
        layout64_def TO_LDR_ENTRY_def c_void_p_value_def)
qed

section \<open>Reading strings\<close>

lemma mapped_iff: "mapped m a n \<longleftrightarrow> (\<forall>j<n. m (a + int j) \<noteq> None)"
  by (auto simp: mapped_def list_all_iff)

lemma read_memory_copy:
  "mapped m a n \<Longrightarrow> read_memory (copy_from m) a n = Inr (map (\<lambda>j. the (m (a + int j))) [0..<n])"
  by (simp add: read_memory_def copy_from_def filled_def)

lemma read_memory_copy_fail:
  "\<not> mapped m a n \<Longrightarrow> read_memory (copy_from m) a n = Inl (Kernel32Error ''ReadProcessMemory'')"
  by (simp add: read_memory_def copy_from_def)

lemma string_at_nth: "string_at m addr s \<Longrightarrow> j < length s \<Longrightarrow> m (addr + int j) = Some (s ! j)"
  by (auto simp: string_at_def list_all_iff)

lemma string_chunk_inner:
  assumes s: "string_at m addr s" and i: "Suc i * 256 \<le> length s"
  shows "read_memory (copy_from m) (addr + int i * 256) 256 = Inr (take 256 (drop (i * 256) s))"
proof -
  have a: "m (addr + int i * 256 + int j) = Some (s ! (i * 256 + j))" if "j < 256" for j
  proof -
    have "i * 256 + j < length s" using that i by simp
    from string_at_nth [OF s this] show ?thesis by (simp add: algebra_simps)
  qed
  then have "mapped m (addr + int i * 256) 256" by (simp add: mapped_iff)
  moreover have "map (\<lambda>j. the (m (addr + int i * 256 + int j))) [0..<256] = take 256 (drop (i * 256) s)"
    using a i by (intro nth_equalityI) (auto simp: min_def)
  ultimately show ?thesis by (simp add: read_memory_copy)
qed

lemma string_chunk_last:
  assumes s: "string_at m addr s" and k: "k = length s div 256"
      and M: "mapped m (addr + int k * 256) 256"
  shows "\<exists>x. read_memory (copy_from m) (addr + int k * 256) 256 = Inr x \<and> 0 \<in> set x
            \<and> takeWhile (\<lambda>b. b \<noteq> 0) x = drop (k * 256) s"
proof -
  define x where "x = map (\<lambda>j. the (m (addr + int k * 256 + int j))) [0..<256]"
  define r where "r = length s mod 256"
  have ls: "length s = k * 256 + r" using k r_def by simp
  have r: "r < 256" by (simp add: r_def)
  have lx: "length x = 256" by (simp add: x_def)
  have nth: "x ! j = s ! (k * 256 + j)" if "j < r" for j
  proof -
    have "k * 256 + j < length s" using that ls by simp
    from string_at_nth [OF s this] that r show ?thesis by (simp add: x_def algebra_simps)
  qed
  have "m (addr + int (length s)) = Some 0" using s by (simp add: string_at_def)
  then have z: "x ! r = 0" using r by (simp add: x_def ls algebra_simps)
  have nz: "x ! j \<noteq> 0" if "j < r" for j
  proof -
    have "k * 256 + j < length s" using that ls by simp
    then have "s ! (k * 256 + j) \<in> set s" by simp
    moreover have "0 \<notin> set s" using s by (simp add: string_at_def)
    ultimately show ?thesis using nth [OF that] by metis
  qed
  have "takeWhile (\<lambda>b. b \<noteq> 0) x = take r x"
    by (rule takeWhile_eq_take_P_nth) (use nz z r lx in auto)
  also have "\<dots> = drop (k * 256) s"
    using nth r lx ls by (intro nth_equalityI) auto
  finally have t: "takeWhile (\<lambda>b. b \<noteq> 0) x = drop (k * 256) s" .
  have "0 \<in> set x" using z r lx by (metis nth_mem)
  with t M show ?thesis by (auto simp: read_memory_copy x_def)
qed

lemma read_string_loop_chunks:
  assumes s: "string_at m addr s" and k: "k = length s div 256" and i: "i \<le> k"
  shows "read_string_loop (copy_from m) addr i res =
           (if mapped m (addr + int k * 256) 256 then Some (Inr (concat res @ drop (i * 256) s))
            else Some (Inl (Kernel32Error ''ReadProcessMemory'')))"
  using i
proof (induction "k - i" arbitrary: i res)
  case 0
  then have ik: "i = k" by simp
  show ?case
  proof (cases "mapped m (addr + int k * 256) 256")
    case True
    from string_chunk_last [OF s k True] obtain x where
      "read_memory (copy_from m) (addr + int k * 256) 256 = Inr x" "0 \<in> set x"
      "takeWhile (\<lambda>b. b \<noteq> 0) x = drop (k * 256) s" by blast
    with True ik show ?thesis by (subst read_string_loop.simps) simp
  next
    case False
    with ik show ?thesis
      by (subst read_string_loop.simps) (simp add: read_memory_copy_fail)
  qed
next
  case (Suc d)
  then have ik: "i < k" and d: "d = k - Suc i" and le: "Suc i \<le> k" by simp_all
  have b: "Suc i * 256 \<le> length s" using ik k by simp
  define x where "x = take 256 (drop (i * 256) s)"
  have rx: "read_memory (copy_from m) (addr + int i * 256) 256 = Inr x"
    using string_chunk_inner [OF s b] by (simp add: x_def)
  have "0 \<notin> set s" using s by (simp add: string_at_def)
  then have nz: "0 \<notin> set x" unfolding x_def by (meson in_set_dropD in_set_takeD)
  have j: "x @ drop (Suc i * 256) s = drop (i * 256) s"
    unfolding x_def by (metis add.commute append_take_drop_id drop_drop mult_Suc)
  have "read_string_loop (copy_from m) addr i res =
          read_string_loop (copy_from m) addr (Suc i) (res @ [x])"
    using rx nz by (subst read_string_loop.simps) simp
  also have "\<dots> = (if mapped m (addr + int k * 256) 256
                     then Some (Inr (concat (res @ [x]) @ drop (Suc i * 256) s))
                     else Some (Inl (Kernel32Error ''ReadProcessMemory'')))"
    by (rule Suc.hyps(1) [OF d le])
  finally show ?case using j by simp
qed

lemma string_at_mapped_prefix:
  assumes s: "string_at m addr s" and k: "k = length s div 256"
  shows "mapped m addr ((k + 1) * 256) \<longleftrightarrow> mapped m (addr + int k * 256) 256"
proof
  assume a: "mapped m addr ((k + 1) * 256)"
  show "mapped m (addr + int k * 256) 256"
    unfolding mapped_iff
  proof (intro allI impI)
    fix j :: nat assume "j < 256"
    then have "k * 256 + j < (k + 1) * 256" by simp
    with a have "m (addr + int (k * 256 + j)) \<noteq> None" unfolding mapped_iff by blast
    then show "m (addr + int k * 256 + int j) \<noteq> None" by (simp add: algebra_simps)
  qed
next
  assume a: "mapped m (addr + int k * 256) 256"
  show "mapped m addr ((k + 1) * 256)"
    unfolding mapped_iff
  proof (intro allI impI)
    fix j :: nat assume j: "j < (k + 1) * 256"
    show "m (addr + int j) \<noteq> None"
    proof (cases "j < k * 256")
      case True
      then have "j < length s" using k by (metis div_times_less_eq_dividend order_less_le_trans)
      from string_at_nth [OF s this] show ?thesis by simp
    next
      case False
      then obtain j' where j': "j = k * 256 + j'" "j' < 256" using j
        by (metis add.commute le_add_diff_inverse2 less_diff_conv2 linorder_not_less mult.commute mult_Suc_right Suc_eq_plus1 add_diff_cancel_left' nat_add_left_cancel_less)
      with a have "m (addr + int k * 256 + int j') \<noteq> None" unfolding mapped_iff by blast
      with j' show ?thesis by (simp add: algebra_simps)
    qed
  qed
qed

text \<open>
  C3, amended. When the zero-terminated string \<open>s\<close> is mapped at \<open>addr\<close>,
  \<open>read_string\<close> reads whole chunks of \<open>0x100\<close> bytes from \<open>addr\<close> on: it returns
  exactly \<open>s\<close> when every chunk up to and including the one that holds the terminator
  is mapped in full, and raises the error of the failed read otherwise. No smaller
  read is issued.
\<close>

theorem read_string_whole_chunks:
  assumes "string_at m addr s"
  shows "read_string (copy_from m) addr =
           (if mapped m addr ((length s div 256 + 1) * 256) then Some (Inr s)
            else Some (Inl (Kernel32Error ''ReadProcessMemory'')))"
  using read_string_loop_chunks [OF assms refl, of 0 "[]"] string_at_mapped_prefix [OF assms refl]
  by (simp add: read_string_def)

lemma peek_head:
  "j < length bs \<Longrightarrow> peek ((base, bs) # segs) (base + int j) = Some (bs ! j)"
  by simp

lemma segment_read:
  assumes "length bs = n"
  shows "read_memory (copy_from (peek ((base, bs) # segs))) base n = Inr bs"
proof -
  have "mapped (peek ((base, bs) # segs)) base n" using assms by (simp add: mapped_iff)
  moreover have "map (\<lambda>j. the (peek ((base, bs) # segs) (base + int j))) [0..<n] = bs"
    using assms by (intro nth_equalityI) simp_all
  ultimately show ?thesis by (simp add: read_memory_copy)
qed

text \<open>
  C3, as stated, fails: the string \<open>ab\<close> with its terminator is mapped at \<open>0x1FFD\<close>,
  the chunk of \<open>0x100\<close> bytes read there reaches past the end of the mapping, and
  \<open>read_string\<close> raises instead of returning \<open>ab\<close>.
\<close>

theorem read_string_fails_at_tail:
  "string_at tail_mem 0x1FFD [0x61, 0x62]
   \<and> read_string (copy_from tail_mem) 0x1FFD = Some (Inl (Kernel32Error ''ReadProcessMemory''))"
proof -
  have "tail_mem (0x1FFD + int 3) = None" by (simp add: tail_mem_def)
  moreover have "(3::nat) < 0x100" by simp
  ultimately have "\<not> mapped tail_mem 0x1FFD 0x100" unfolding mapped_iff by blast
  then have "read_string (copy_from tail_mem) 0x1FFD = Some (Inl (Kernel32Error ''ReadProcessMemory''))"
    unfolding read_string_def by (subst read_string_loop.simps) (simp add: read_memory_copy_fail)
  moreover have "string_at tail_mem 0x1FFD [0x61, 0x62]"
    by (simp add: string_at_def tail_mem_def nth_append upt_rec)
  ultimately show ?thesis by simp
qed

theorem read_string_whole_chunks_witness:
  "string_at head_mem 0x1000 [0x61, 0x62]
   \<and> mapped head_mem 0x1000 ((length [0x61, 0x62 :: byte] div 256 + 1) * 256)
   \<and> read_string (copy_from head_mem) 0x1000 = Some (Inr [0x61, 0x62])"
proof -
  have s: "string_at head_mem 0x1000 [0x61, 0x62]"
    by (simp add: string_at_def head_mem_def upt_rec)
  have m: "mapped head_mem 0x1000 ((length [0x61, 0x62 :: byte] div 256 + 1) * 256)"
    by (simp add: mapped_iff head_mem_def)
  show ?thesis using s m read_string_whole_chunks [OF s] by simp
qed

lemma length_read_memory: "read_memory low a n = Inr x \<Longrightarrow> length x = n"
  by (auto simp: read_memory_def filled_def split: sum.splits)

lemma concat_pairs: "even (length x) \<Longrightarrow> concat (pairs x) = x"
  by (induction x rule: pairs.induct) auto

lemma concat_singletons: "concat (map (\<lambda>b. [b]) x) = x"
  by (induction x) auto

lemma length_pairs_elem: "c \<in> set (pairs x) \<Longrightarrow> length c = 2"
  by (induction x rule: pairs.induct) auto

lemma even_concat_twos: "\<forall>c \<in> set xs. length c = 2 \<Longrightarrow> even (length (concat xs))"
  by (induction xs) auto

lemma even_concat_pairs_prefix: "even (length (concat (takeWhile P (pairs x))))"
  by (rule even_concat_twos) (meson length_pairs_elem set_takeWhileD)

lemma source_loop_in_reference:
  assumes "read_wstring_loop low addr i res = Some y"
  shows "\<forall>res'. concat res' = concat res \<longrightarrow> read_wstring_spec_loop low addr i res' = Some y"
proof (rule read_wstring_loop.raw_induct
    [where P = "\<lambda>low addr i res y. \<forall>res'. concat res' = concat res \<longrightarrow>
                  read_wstring_spec_loop low addr i res' = Some y", OF _ assms])
  fix f :: "lowreader \<Rightarrow> int \<Rightarrow> nat \<Rightarrow> byte list list \<Rightarrow> (error + byte list) option"
  fix low addr i res y
  assume IH: "\<And>low addr i res y. f low addr i res = Some y \<Longrightarrow>
                \<forall>res'. concat res' = concat res \<longrightarrow> read_wstring_spec_loop low addr i res' = Some y"
    and body: "(case read_memory low (addr + int i * 0x100) 0x100 of
        Inl e \<Rightarrow> Some (Inl e)
      | Inr x \<Rightarrow>
          if [0, 0] \<in> set (pairs x)
          then Some (Inr (concat (res @ takeWhile (\<lambda>c. c \<noteq> [0, 0]) (pairs x))))
          else f low addr (Suc i) (res @ map (\<lambda>b. [b]) x)) = Some y"
  show "\<forall>res'. concat res' = concat res \<longrightarrow> read_wstring_spec_loop low addr i res' = Some y"
  proof (intro allI impI)
    fix res' :: "byte list list"
    assume c: "concat res' = concat res"
    show "read_wstring_spec_loop low addr i res' = Some y"
    proof (cases "read_memory low (addr + int i * 0x100) 0x100")
      case (Inl e)
      with body have "y = Inl e" by simp
      with Inl show ?thesis by (subst read_wstring_spec_loop.simps) simp
    next
      case (Inr x)
      then have ev: "even (length x)" using length_read_memory [OF Inr] by simp
      show ?thesis
      proof (cases "[0, 0] \<in> set (pairs x)")
        case True
        with body Inr c show ?thesis by (subst read_wstring_spec_loop.simps) simp
      next
        case False
        with body Inr have "f low addr (Suc i) (res @ map (\<lambda>b. [b]) x) = Some y" by simp
        moreover have "concat (res' @ pairs x) = concat (res @ map (\<lambda>b. [b]) x)"
          using c ev by (simp add: concat_pairs concat_singletons)
        ultimately have "read_wstring_spec_loop low addr (Suc i) (res' @ pairs x) = Some y"
          using IH by blast
        with False Inr show ?thesis by (subst read_wstring_spec_loop.simps) simp
      qed
    qed
  qed
qed

lemma reference_loop_in_source:
  assumes "read_wstring_spec_loop low addr i res = Some y"
  shows "\<forall>res'. concat res' = concat res \<longrightarrow> read_wstring_loop low addr i res' = Some y"
proof (rule read_wstring_spec_loop.raw_induct
    [where P = "\<lambda>low addr i res y. \<forall>res'. concat res' = concat res \<longrightarrow>
                  read_wstring_loop low addr i res' = Some y", OF _ assms])
  fix f :: "lowreader \<Rightarrow> int \<Rightarrow> nat \<Rightarrow> byte list list \<Rightarrow> (error + byte list) option"
  fix low addr i res y
  assume IH: "\<And>low addr i res y. f low addr i res = Some y \<Longrightarrow>
                \<forall>res'. concat res' = concat res \<longrightarrow> read_wstring_loop low addr i res' = Some y"
    and body: "(case read_memory low (addr + int i * 0x100) 0x100 of
        Inl e \<Rightarrow> Some (Inl e)
      | Inr x \<Rightarrow>
          if [0, 0] \<in> set (pairs x)
          then Some (Inr (concat (res @ takeWhile (\<lambda>c. c \<noteq> [0, 0]) (pairs x))))
          else f low addr (Suc i) (res @ pairs x)) = Some y"
  show "\<forall>res'. concat res' = concat res \<longrightarrow> read_wstring_loop low addr i res' = Some y"
  proof (intro allI impI)
    fix res' :: "byte list list"
    assume c: "concat res' = concat res"
    show "read_wstring_loop low addr i res' = Some y"
    proof (cases "read_memory low (addr + int i * 0x100) 0x100")
      case (Inl e)
      with body have "y = Inl e" by simp
      with Inl show ?thesis by (subst read_wstring_loop.simps) simp
    next
      case (Inr x)
      then have ev: "even (length x)" using length_read_memory [OF Inr] by simp
      show ?thesis
      proof (cases "[0, 0] \<in> set (pairs x)")
        case True
        with body Inr c show ?thesis by (subst read_wstring_loop.simps) simp
      next
        case False
        with body Inr have "f low addr (Suc i) (res @ pairs x) = Some y" by simp
        moreover have "concat (res' @ map (\<lambda>b. [b]) x) = concat (res @ pairs x)"
          using c ev by (simp add: concat_pairs concat_singletons)
        ultimately have "read_wstring_loop low addr (Suc i) (res' @ map (\<lambda>b. [b]) x) = Some y"
          using IH by blast
        with False Inr show ?thesis by (subst read_wstring_loop.simps) simp
      qed
    qed
  qed
qed

lemma wstring_loops_equal:
  "read_wstring_loop low addr i res = read_wstring_spec_loop low addr i res"
proof (cases "read_wstring_loop low addr i res")
  case None
  show ?thesis
  proof (cases "read_wstring_spec_loop low addr i res")
    case None': None
    with None show ?thesis by simp
  next
    case (Some y)
    from reference_loop_in_source [OF Some] None show ?thesis by simp
  qed
next
  case (Some y)
  from source_loop_in_reference [OF Some] Some show ?thesis by simp
qed

lemma wstring_loop_even:
  assumes "read_wstring_spec_loop low addr i res = Some y"
  shows "even (length (concat res)) \<longrightarrow> (case y of Inl e \<Rightarrow> True | Inr bs \<Rightarrow> even (length bs))"
proof (rule read_wstring_spec_loop.raw_induct
    [where P = "\<lambda>low addr i res y. even (length (concat res)) \<longrightarrow>
                  (case y of Inl e \<Rightarrow> True | Inr bs \<Rightarrow> even (length bs))", OF _ assms])
  fix f :: "lowreader \<Rightarrow> int \<Rightarrow> nat \<Rightarrow> byte list list \<Rightarrow> (error + byte list) option"
  fix low addr i res y
  assume IH: "\<And>low addr i res y. f low addr i res = Some y \<Longrightarrow>
                even (length (concat res)) \<longrightarrow> (case y of Inl e \<Rightarrow> True | Inr bs \<Rightarrow> even (length bs))"
    and body: "(case read_memory low (addr + int i * 0x100) 0x100 of
        Inl e \<Rightarrow> Some (Inl e)
      | Inr x \<Rightarrow>
          if [0, 0] \<in> set (pairs x)
          then Some (Inr (concat (res @ takeWhile (\<lambda>c. c \<noteq> [0, 0]) (pairs x))))
          else f low addr (Suc i) (res @ pairs x)) = Some y"
  show "even (length (concat res)) \<longrightarrow> (case y of Inl e \<Rightarrow> True | Inr bs \<Rightarrow> even (length bs))"
  proof
    assume e: "even (length (concat res))"
    show "case y of Inl e \<Rightarrow> True | Inr bs \<Rightarrow> even (length bs)"
    proof (cases "read_memory low (addr + int i * 0x100) 0x100")
      case (Inl e)
      with body show ?thesis by auto
    next
      case (Inr x)
      then have ev: "even (length x)" using length_read_memory [OF Inr] by simp
      show ?thesis
      proof (cases "[0, 0] \<in> set (pairs x)")
        case True
        with body Inr e even_concat_pairs_prefix [of "\<lambda>c. c \<noteq> [0, 0]" x] show ?thesis by auto
      next
        case False
        with body Inr have "f low addr (Suc i) (res @ pairs x) = Some y" by simp
        moreover have "even (length (concat (res @ pairs x)))"
          using e ev by (simp add: concat_pairs)
        ultimately show ?thesis using IH by blast
      qed
    qed
  qed
qed

lemma decode_without_bom: "\<not> bom s \<Longrightarrow> decode_utf16 s = decode_utf16_le s"
  by (simp add: bom_def decode_utf16_def decode_utf16_le_def)

lemma wstring_at_nth: "wstring_at m addr s \<Longrightarrow> j < length s \<Longrightarrow> m (addr + int j) = Some (s ! j)"
  by (auto simp: wstring_at_def list_all_iff)

lemma pairs_append: "even (length xs) \<Longrightarrow> pairs (xs @ ys) = pairs xs @ pairs ys"
  by (induction xs rule: pairs.induct) auto

lemma pairs_drop: "set (pairs (drop (2 * b) s)) \<subseteq> set (pairs s)"
proof (induction s arbitrary: b rule: pairs.induct)
  case (1 x y xs)
  show ?case
  proof (cases b)
    case 0
    then show ?thesis by simp
  next
    case (Suc b')
    with 1 [of b'] show ?thesis by auto
  qed
qed (auto simp: drop_Cons split: nat.splits)

lemma pairs_take: "set (pairs (take (2 * a) s)) \<subseteq> set (pairs s)"
proof (induction s arbitrary: a rule: pairs.induct)
  case (1 x y xs)
  show ?case
  proof (cases a)
    case 0
    then show ?thesis by simp
  next
    case (Suc a')
    with 1 [of a'] show ?thesis by auto
  qed
qed (auto simp: take_Cons split: nat.splits)

lemma wstring_chunk_inner:
  assumes s: "wstring_at m addr s" and i: "Suc i * 256 \<le> length s"
  shows "read_memory (copy_from m) (addr + int i * 256) 256 = Inr (take 256 (drop (i * 256) s))"
proof -
  have a: "m (addr + int i * 256 + int j) = Some (s ! (i * 256 + j))" if "j < 256" for j
  proof -
    have "i * 256 + j < length s" using that i by simp
    from wstring_at_nth [OF s this] show ?thesis by (simp add: algebra_simps)
  qed
  then have "mapped m (addr + int i * 256) 256" by (simp add: mapped_iff)
  moreover have "map (\<lambda>j. the (m (addr + int i * 256 + int j))) [0..<256] = take 256 (drop (i * 256) s)"
    using a i by (intro nth_equalityI) (auto simp: min_def)
  ultimately show ?thesis by (simp add: read_memory_copy)
qed

lemma wstring_chunk_last:
  assumes s: "wstring_at m addr s" and k: "k = length s div 256"
      and M: "mapped m (addr + int k * 256) 256"
  shows "\<exists>x. read_memory (copy_from m) (addr + int k * 256) 256 = Inr x \<and> [0, 0] \<in> set (pairs x)
            \<and> concat (takeWhile (\<lambda>c. c \<noteq> [0, 0]) (pairs x)) = drop (k * 256) s"
proof -
  define x where "x = map (\<lambda>j. the (m (addr + int k * 256 + int j))) [0..<256]"
  define r where "r = length s mod 256"
  define d where "d = drop (k * 256) s"
  have ls: "length s = k * 256 + r" using k r_def by simp
  have es: "even (length s)" using s by (simp add: wstring_at_def)
  have er: "even r" using es ls by simp
  have "r < 256" by (simp add: r_def)
  with er have r: "Suc r < 256" by presburger
  have lx: "length x = 256" by (simp add: x_def)
  have nth: "x ! j = s ! (k * 256 + j)" if "j < r" for j
  proof -
    have "k * 256 + j < length s" using that ls by simp
    from wstring_at_nth [OF s this] that r show ?thesis by (simp add: x_def algebra_simps)
  qed
  have "m (addr + int (length s)) = Some 0" "m (addr + int (length s) + 1) = Some 0"
    using s by (simp_all add: wstring_at_def)
  then have z: "x ! r = 0" "x ! Suc r = 0" using r by (simp_all add: x_def ls algebra_simps)
  have tk: "take r x = d"
    unfolding d_def using nth r lx ls by (intro nth_equalityI) auto
  have "x = take r x @ drop r x" by simp
  also have "drop r x = x ! r # drop (Suc r) x" using r lx by (simp add: Cons_nth_drop_Suc)
  also have "drop (Suc r) x = x ! Suc r # drop (Suc (Suc r)) x" using r lx by (simp add: Cons_nth_drop_Suc)
  finally have xs: "x = d @ 0 # 0 # drop (Suc (Suc r)) x" using z tk by simp
  have ed: "even (length d)" using er ls by (simp add: d_def)
  have px: "pairs x = pairs d @ [0, 0] # pairs (drop (Suc (Suc r)) x)"
    by (subst xs) (simp add: pairs_append [OF ed])
  have "k * 256 = 2 * (k * 128)" by simp
  then have "set (pairs d) \<subseteq> set (pairs s)" unfolding d_def by (metis pairs_drop)
  moreover have "[0, 0] \<notin> set (pairs s)" using s by (simp add: wstring_at_def)
  ultimately have nz: "\<forall>c \<in> set (pairs d). c \<noteq> [0, 0]" by blast
  then have "takeWhile (\<lambda>c. c \<noteq> [0, 0]) (pairs x) = pairs d"
    by (simp add: px takeWhile_append2)
  then have t: "concat (takeWhile (\<lambda>c. c \<noteq> [0, 0]) (pairs x)) = d"
    using ed by (simp add: concat_pairs)
  have "[0, 0] \<in> set (pairs x)" by (simp add: px)
  with t M show ?thesis by (auto simp: read_memory_copy x_def d_def)
qed

lemma read_wstring_loop_chunks:
  assumes s: "wstring_at m addr s" and k: "k = length s div 256" and i: "i \<le> k"
  shows "read_wstring_loop (copy_from m) addr i res =
           (if mapped m (addr + int k * 256) 256 then Some (Inr (concat res @ drop (i * 256) s))
            else Some (Inl (Kernel32Error ''ReadProcessMemory'')))"
  using i
proof (induction "k - i" arbitrary: i res)
  case 0
  then have ik: "i = k" by simp
  show ?case
  proof (cases "mapped m (addr + int k * 256) 256")
    case True
    from wstring_chunk_last [OF s k True] obtain x where
      "read_memory (copy_from m) (addr + int k * 256) 256 = Inr x" "[0, 0] \<in> set (pairs x)"
      "concat (takeWhile (\<lambda>c. c \<noteq> [0, 0]) (pairs x)) = drop (k * 256) s" by blast
    with True ik show ?thesis by (subst read_wstring_loop.simps) simp
  next
    case False
    with ik show ?thesis
      by (subst read_wstring_loop.simps) (simp add: read_memory_copy_fail)
  qed
next
  case (Suc d)
  then have ik: "i < k" and d: "d = k - Suc i" and le: "Suc i \<le> k" by simp_all
  have b: "Suc i * 256 \<le> length s" using ik k by simp
  define x where "x = take 256 (drop (i * 256) s)"
  have rx: "read_memory (copy_from m) (addr + int i * 256) 256 = Inr x"
    using wstring_chunk_inner [OF s b] by (simp add: x_def)
  have "i * 256 = 2 * (i * 128)" "(256::nat) = 2 * 128" by simp_all
  then have "set (pairs x) \<subseteq> set (pairs (drop (i * 256) s))"
        "set (pairs (drop (i * 256) s)) \<subseteq> set (pairs s)"
    unfolding x_def by (metis pairs_take, metis pairs_drop)
  moreover have "[0, 0] \<notin> set (pairs s)" using s by (simp add: wstring_at_def)
  ultimately have nz: "[0, 0] \<notin> set (pairs x)" by blast
  have j: "x @ drop (Suc i * 256) s = drop (i * 256) s"
    unfolding x_def by (metis add.commute append_take_drop_id drop_drop mult_Suc)
  have "read_wstring_loop (copy_from m) addr i res =
          read_wstring_loop (copy_from m) addr (Suc i) (res @ map (\<lambda>b. [b]) x)"
    using rx nz by (subst read_wstring_loop.simps) simp
  also have "\<dots> = (if mapped m (addr + int k * 256) 256
                     then Some (Inr (concat (res @ map (\<lambda>b. [b]) x) @ drop (Suc i * 256) s))
                     else Some (Inl (Kernel32Error ''ReadProcessMemory'')))"
    by (rule Suc.hyps(1) [OF d le])
  finally show ?case using j by (simp add: concat_singletons)
qed

lemma wstring_at_mapped_prefix:
  assumes s: "wstring_at m addr s" and k: "k = length s div 256"
  shows "mapped m addr ((k + 1) * 256) \<longleftrightarrow> mapped m (addr + int k * 256) 256"
proof
  assume a: "mapped m addr ((k + 1) * 256)"
  show "mapped m (addr + int k * 256) 256"
    unfolding mapped_iff
  proof (intro allI impI)
    fix j :: nat assume "j < 256"
    then have "k * 256 + j < (k + 1) * 256" by simp
    with a have "m (addr + int (k * 256 + j)) \<noteq> None" unfolding mapped_iff by blast
    then show "m (addr + int k * 256 + int j) \<noteq> None" by (simp add: algebra_simps)
  qed
next
  assume a: "mapped m (addr + int k * 256) 256"
  show "mapped m addr ((k + 1) * 256)"
    unfolding mapped_iff
  proof (intro allI impI)
    fix j :: nat assume j: "j < (k + 1) * 256"
    show "m (addr + int j) \<noteq> None"
    proof (cases "j < k * 256")
      case True
      have "k * 256 \<le> length s" using k by simp
      with True have "j < length s" by simp
      from wstring_at_nth [OF s this] show ?thesis by simp
    next
      case False
      define j' where "j' = j - k * 256"
      have j': "j = k * 256 + j'" "j' < 256" using False j by (simp_all add: j'_def)
      with a have "m (addr + int k * 256 + int j') \<noteq> None" unfolding mapped_iff by blast
      with j' show ?thesis by (simp add: algebra_simps)
    qed
  qed
qed

lemma read_wstring_loop_whole_chunks:
  assumes "wstring_at m addr s"
  shows "read_wstring_loop (copy_from m) addr 0 [] =
           (if mapped m addr ((length s div 256 + 1) * 256) then Some (Inr s)
            else Some (Inl (Kernel32Error ''ReadProcessMemory'')))"
  using read_wstring_loop_chunks [OF assms refl, of 0 "[]"] wstring_at_mapped_prefix [OF assms refl]
  by simp

text \<open>
  C8, amended. For every kernel behaviour and every address the source loop and the
  pair-chunking reference loop agree (same bytes, same exception, or both without end),
  and the bytes joined have even length, so no character is split. When the wide string
  \<open>s\<close> is mapped at \<open>addr\<close> and the chunks up to the one holding its zero pair can be read
  in full, the bytes joined are \<open>s\<close>. The source decodes them with the \<open>utf16\<close> codec,
  the reference as UTF-16LE: the results are equal whenever the bytes do not start with
  a byte-order mark, and whenever the loop raises or does not end.
\<close>

theorem read_wstring_refines_reference:
  "read_wstring_loop low addr 0 [] = read_wstring_spec_loop low addr 0 []
   \<and> (\<forall>joined. read_wstring_loop low addr 0 [] = Some (Inr joined) \<longrightarrow>
         even (length joined)
         \<and> read_wstring low addr = Some (decode_utf16 joined)
         \<and> read_wstring_spec low addr = Some (decode_utf16_le joined)
         \<and> (\<not> bom joined \<longrightarrow> read_wstring low addr = read_wstring_spec low addr))
   \<and> ((\<forall>joined. read_wstring_loop low addr 0 [] \<noteq> Some (Inr joined)) \<longrightarrow>
         read_wstring low addr = read_wstring_spec low addr)
   \<and> (\<forall>m s. low = copy_from m \<longrightarrow> wstring_at m addr s \<longrightarrow>
         mapped m addr ((length s div 256 + 1) * 256) \<longrightarrow>
         read_wstring_loop low addr 0 [] = Some (Inr s))"
proof -
  have eq: "read_wstring_loop low addr 0 [] = read_wstring_spec_loop low addr 0 []"
    by (rule wstring_loops_equal)
  have ev: "even (length joined)" if "read_wstring_loop low addr 0 [] = Some (Inr joined)" for joined
    using wstring_loop_even [of low addr 0 "[]" "Inr joined"] that eq by simp
  have nb: "read_wstring low addr = read_wstring_spec low addr"
    if "read_wstring_loop low addr 0 [] = Some (Inr joined)" "\<not> bom joined" for joined
    using that eq by (simp add: read_wstring_def read_wstring_spec_def decode_without_bom)
  have other: "read_wstring low addr = read_wstring_spec low addr"
    if "\<forall>joined. read_wstring_loop low addr 0 [] \<noteq> Some (Inr joined)"
    using that eq by (auto simp: read_wstring_def read_wstring_spec_def split: option.splits sum.splits)
  have bytes: "read_wstring_loop low addr 0 [] = Some (Inr s)"
    if "low = copy_from m" "wstring_at m addr s" "mapped m addr ((length s div 256 + 1) * 256)" for m s
    using read_wstring_loop_whole_chunks [OF that(2)] that(1,3) by simp
  have dec: "read_wstring low addr = Some (decode_utf16 joined)
             \<and> read_wstring_spec low addr = Some (decode_utf16_le joined)"
    if "read_wstring_loop low addr 0 [] = Some (Inr joined)" for joined
    using that eq by (simp add: read_wstring_def read_wstring_spec_def)
  show ?thesis using eq ev nb other bytes dec by blast
qed

lemma bom_loop:
  "read_wstring_loop (copy_from bom_mem) 0x1000 0 [] = Some (Inr [0xFF, 0xFE, 0x41, 0])"
proof -
  have "read_memory (copy_from bom_mem) 0x1000 0x100 = Inr ([0xFF, 0xFE, 0x41, 0, 0, 0] @ replicate 0xFA 0)"
    unfolding bom_mem_def by (rule segment_read) simp
  then show ?thesis by (subst read_wstring_loop.simps) simp
qed

text \<open>
  C8, as stated, fails: on a wide string that starts with the byte-order mark \<open>FF FE\<close>
  the source returns the string without the mark, and the UTF-16LE decoding that the
  reference returns keeps it as the character \<open>U+FEFF\<close>.
\<close>

theorem read_wstring_drops_byte_order_mark:
  "read_wstring (copy_from bom_mem) 0x1000 = Some (Inr [0x41])
   \<and> read_wstring_spec (copy_from bom_mem) 0x1000 = Some (Inr [0xFEFF, 0x41])"
proof -
  have s: "read_wstring_spec_loop (copy_from bom_mem) 0x1000 0 [] = Some (Inr [0xFF, 0xFE, 0x41, 0])"
    using bom_loop wstring_loops_equal [of "copy_from bom_mem" "0x1000" 0 "[]"] by simp
  show ?thesis using bom_loop s
    by (simp add: read_wstring_def read_wstring_spec_def decode_utf16_def decode_utf16_le_def
        decode_with_def)
qed

theorem read_wstring_refines_reference_witness:
  "wstring_at wide_mem 0x1000 [0x48, 0, 0x69, 0]
   \<and> mapped wide_mem 0x1000 ((length [0x48, 0, 0x69, 0 :: byte] div 256 + 1) * 256)
   \<and> \<not> bom [0x48, 0, 0x69, 0]
   \<and> read_wstring_loop (copy_from wide_mem) 0x1000 0 [] = Some (Inr [0x48, 0, 0x69, 0])
   \<and> read_wstring (copy_from wide_mem) 0x1000 = Some (Inr [0x48, 0x69])
   \<and> read_wstring_spec (copy_from wide_mem) 0x1000 = Some (Inr [0x48, 0x69])"
proof -
  have w: "wstring_at wide_mem 0x1000 [0x48, 0, 0x69, 0]"
    by (simp add: wstring_at_def wide_mem_def upt_rec)
  have m: "mapped wide_mem 0x1000 ((length [0x48, 0, 0x69, 0 :: byte] div 256 + 1) * 256)"
    by (simp add: mapped_iff wide_mem_def)
  have nb: "\<not> bom [0x48, 0, 0x69, 0]" by (simp add: bom_def)
  have d: "decode_utf16 [0x48, 0, 0x69, 0] = Inr [0x48, 0x69]"
    by (simp add: decode_utf16_def decode_with_def)
  note t = read_wstring_refines_reference [of "copy_from wide_mem" "0x1000"]
  from t w m have l: "read_wstring_loop (copy_from wide_mem) 0x1000 0 [] = Some (Inr [0x48, 0, 0x69, 0])"
    by blast
  with t nb have "read_wstring (copy_from wide_mem) 0x1000 = Some (decode_utf16 [0x48, 0, 0x69, 0])"
       "read_wstring (copy_from wide_mem) 0x1000 = read_wstring_spec (copy_from wide_mem) 0x1000"
    by blast+
  with d l w m nb show ?thesis by simp
qed

section \<open>The memory enumeration\<close>

lemma addr_after_failed: "q a = Inl e \<Longrightarrow> addr_after q a n = a"
  by (cases n) simp_all

lemma addr_after_step:
  "\<not> isl (q (addr_after q a i)) \<Longrightarrow>
     addr_after q a (Suc i) = addr_after q a i + RegionSize (projr (q (addr_after q a i)))"
proof (induction i arbitrary: a)
  case 0
  then show ?case by (cases "q a") simp_all
next
  case (Suc i)
  show ?case
  proof (cases "q a")
    case (Inl e)
    with Suc.prems addr_after_failed [of q a e "Suc i"] show ?thesis by simp
  next
    case (Inr x)
    with Suc.prems have "\<not> isl (q (addr_after q (a + RegionSize x) i))" by simp
    from Suc.IH [OF this] Inr show ?thesis by simp
  qed
qed

lemma memory_state_loop_stops:
  assumes "\<forall>i<n. \<not> isl (q (addr_after q a i))" and "q (addr_after q a n) = Inl e"
  shows "memory_state_loop q a yielded =
           Some (yielded @ map (\<lambda>i. projr (q (addr_after q a i))) [0..<n],
                 if is_Kernel32Error e then None else Some e)"
  using assms
proof (induction n arbitrary: a yielded)
  case 0
  then show ?case by (subst memory_state_loop.simps) simp
next
  case (Suc n)
  from Suc.prems(1) have "\<not> isl (q (addr_after q a 0))" by blast
  then obtain x where x: "q a = Inr x" by (cases "q a") simp_all
  have ok: "\<forall>i<n. \<not> isl (q (addr_after q (a + RegionSize x) i))"
  proof (intro allI impI)
    fix i assume "i < n"
    then have "Suc i < Suc n" by simp
    with Suc.prems(1) have "\<not> isl (q (addr_after q a (Suc i)))" by blast
    with x show "\<not> isl (q (addr_after q (a + RegionSize x) i))" by simp
  qed
  have st: "q (addr_after q (a + RegionSize x) n) = Inl e" using Suc.prems(2) x by simp
  have sh: "map (\<lambda>i. projr (q (addr_after q a i))) [0..<Suc n] =
        x # map (\<lambda>i. projr (q (addr_after q (a + RegionSize x) i))) [0..<n]"
    using x by (simp add: upt_conv_Cons map_Suc_upt [symmetric] del: upt_Suc)
  have "memory_state_loop q a yielded = memory_state_loop q (a + RegionSize x) (yielded @ [x])"
    using x by (subst memory_state_loop.simps) simp
  also have "\<dots> = Some ((yielded @ [x]) @ map (\<lambda>i. projr (q (addr_after q (a + RegionSize x) i))) [0..<n],
                 if is_Kernel32Error e then None else Some e)"
    by (rule Suc.IH [OF ok st])
  finally show ?case using sh by simp
qed

lemma memory_state_loop_returns:
  assumes "memory_state_loop q a yielded = Some y"
  shows "\<exists>i. isl (q (addr_after q a i))"
proof (rule memory_state_loop.raw_induct
    [where P = "\<lambda>q a yielded y. \<exists>i. isl (q (addr_after q a i))", OF _ assms])
  fix f :: "query \<Rightarrow> int \<Rightarrow> region list \<Rightarrow> (region list \<times> error option) option"
  fix q a yielded y
  assume IH: "\<And>q a yielded y. f q a yielded = Some y \<Longrightarrow> \<exists>i. isl (q (addr_after q a i))"
    and body: "(case q a of
        Inl e \<Rightarrow> Some (yielded, if is_Kernel32Error e then None else Some e)
      | Inr x \<Rightarrow> f q (a + RegionSize x) (yielded @ [x])) = Some y"
  show "\<exists>i. isl (q (addr_after q a i))"
  proof (cases "q a")
    case (Inl e)
    then have "isl (q (addr_after q a 0))" by simp
    then show ?thesis by blast
  next
    case (Inr x)
    with body have "f q (a + RegionSize x) (yielded @ [x]) = Some y" by simp
    from IH [OF this] obtain i where "isl (q (addr_after q (a + RegionSize x) i))" by blast
    with Inr have "isl (q (addr_after q a (Suc i)))" by simp
    then show ?thesis by blast
  qed
qed

lemma memory_state_loop_endless:
  "\<forall>i. \<not> isl (q (addr_after q a i)) \<Longrightarrow> memory_state_loop q a yielded = None"
  using memory_state_loop_returns [of q a yielded]
  by (cases "memory_state_loop q a yielded") auto

lemma covering_bases:
  assumes c: "covering q" and ok: "\<forall>i<n. \<not> isl (q (addr_after q 0 i))"
  shows "i < n \<Longrightarrow> BaseAddress (region_at q i) = addr_after q 0 i \<and> 0 < RegionSize (region_at q i)"
proof (induction i)
  case 0
  with ok have "\<not> isl (q (addr_after q 0 0))" by blast
  then have q0: "q 0 = Inr (region_at q 0)" by (cases "q 0") (simp_all add: region_at_def)
  with c have "0 \<le> BaseAddress (region_at q 0)" "BaseAddress (region_at q 0) \<le> 0"
      "0 < BaseAddress (region_at q 0) + RegionSize (region_at q 0)"
    unfolding covering_def by blast+
  then show ?case by simp
next
  case (Suc i)
  then have i: "i < n" by simp
  from Suc.IH [OF i] have b: "BaseAddress (region_at q i) = addr_after q 0 i" by simp
  let ?r = "region_at q i" and ?r' = "region_at q (Suc i)"
  let ?a = "addr_after q 0 i" and ?a' = "addr_after q 0 (Suc i)"
  from ok i have "\<not> isl (q ?a)" by blast
  then have qi: "q ?a = Inr ?r" and st: "?a' = ?a + RegionSize ?r"
    using addr_after_step [of q 0 i] by (cases "q ?a"; simp add: region_at_def)+
  from ok Suc.prems have "\<not> isl (q ?a')" by blast
  then have qs: "q ?a' = Inr ?r'" by (cases "q ?a'") (simp_all add: region_at_def)
  from c qs have r': "BaseAddress ?r' \<le> ?a'" "?a' < BaseAddress ?r' + RegionSize ?r'"
    unfolding covering_def by blast+
  from c qi have "\<And>b r'. BaseAddress ?r + RegionSize ?r \<le> b \<Longrightarrow> q b = Inr r' \<Longrightarrow>
      BaseAddress ?r + RegionSize ?r \<le> BaseAddress r'"
    unfolding covering_def by blast
  from this [of ?a' ?r'] qs b st have "?a' \<le> BaseAddress ?r'" by simp
  with r' show ?case by simp
qed

lemma covering_increasing:
  assumes c: "covering q" and ok: "\<forall>i<n. \<not> isl (q (addr_after q 0 i))"
  shows "j \<le> n \<Longrightarrow> i < j \<Longrightarrow> addr_after q 0 i < addr_after q 0 j"
proof (induction j)
  case 0
  then show ?case by simp
next
  case (Suc j)
  then have j: "j < n" by simp
  with ok have "\<not> isl (q (addr_after q 0 j))" by blast
  with addr_after_step [of q 0 j] covering_bases [OF c ok j]
  have s: "addr_after q 0 j < addr_after q 0 (Suc j)" by (simp add: region_at_def)
  show ?case
  proof (cases "i = j")
    case True
    with s show ?thesis by simp
  next
    case False
    with Suc.prems have "i < j" by simp
    with Suc.IH j s show ?thesis by simp
  qed
qed

lemma covering_distinct:
  assumes c: "covering q" and ok: "\<forall>i<n. \<not> isl (q (addr_after q 0 i))"
  shows "distinct (map (region_at q) [0..<n])"
proof -
  have "inj_on (region_at q) {0..<n}"
  proof (rule inj_onI)
    fix i j assume i: "i \<in> {0..<n}" and j: "j \<in> {0..<n}" and e: "region_at q i = region_at q j"
    then have a: "addr_after q 0 i = addr_after q 0 j"
      using covering_bases [OF c ok, of i] covering_bases [OF c ok, of j] by simp
    show "i = j"
    proof (rule ccontr)
      assume "i \<noteq> j"
      then consider "i < j" | "j < i" by linarith
      then show False
        using covering_increasing [OF c ok, of j i] covering_increasing [OF c ok, of i j] a i j
        by cases simp_all
    qed
  qed
  then show ?thesis by (simp add: distinct_map)
qed

lemma covering_ends:
  assumes c: "covering q" and ok: "\<forall>i<n. \<not> isl (q (addr_after q 0 i))" and i: "i < n"
  shows "BaseAddress (region_at q i) + RegionSize (region_at q i) = addr_after q 0 (Suc i)"
proof -
  from ok i have "\<not> isl (q (addr_after q 0 i))" by blast
  with addr_after_step [of q 0 i] covering_bases [OF c ok i]
  show ?thesis by (simp add: region_at_def)
qed

lemma covering_all:
  assumes c: "covering q" and ok: "\<forall>i<n. \<not> isl (q (addr_after q 0 i))"
  shows "j \<le> n \<Longrightarrow> 0 \<le> a \<Longrightarrow> a < addr_after q 0 j \<Longrightarrow> \<exists>i<j. inside a (region_at q i)"
proof (induction j)
  case 0
  then show ?case by simp
next
  case (Suc j)
  then have j: "j < n" by simp
  show ?case
  proof (cases "a < addr_after q 0 j")
    case True
    with Suc.IH Suc.prems j obtain i where "i < j" "inside a (region_at q i)" by auto
    then show ?thesis using less_Suc_eq by blast
  next
    case False
    with covering_bases [OF c ok j] covering_ends [OF c ok j] Suc.prems(3)
    have "inside a (region_at q j)" by (simp add: inside_def)
    then show ?thesis by blast
  qed
qed

lemma covering_once:
  assumes c: "covering q" and ok: "\<forall>i<n. \<not> isl (q (addr_after q 0 i))"
    and i: "i < n" and j: "j < n"
    and ai: "inside a (region_at q i)" and aj: "inside a (region_at q j)"
  shows "i = j"
proof (rule ccontr)
  assume "i \<noteq> j"
  have le: "addr_after q 0 (Suc k) \<le> addr_after q 0 l" if "k < l" "l < n" for k l
  proof (cases "Suc k = l")
    case True
    then show ?thesis by simp
  next
    case False
    with that have "Suc k < l" "l \<le> n" by simp_all
    with covering_increasing [OF c ok, of l "Suc k"] show ?thesis by simp
  qed
  from \<open>i \<noteq> j\<close> consider "i < j" | "j < i" by linarith
  then show False
  proof cases
    case 1
    from le [OF 1 j] covering_ends [OF c ok i] covering_bases [OF c ok j] ai aj
    show False by (simp add: inside_def)
  next
    case 2
    from le [OF 2 i] covering_ends [OF c ok j] covering_bases [OF c ok i] ai aj
    show False by (simp add: inside_def)
  qed
qed

lemma page_le: "a - a mod 0x1000 \<le> (a::int)"
  by simp

lemma page_ge:
  assumes "k * 0x1000 \<le> (a::int)"
  shows "k * 0x1000 \<le> a - a mod 0x1000"
proof -
  from assms have "k * 0x1000 div 0x1000 \<le> a div 0x1000" by (rule zdiv_mono1) simp
  then have "k \<le> a div 0x1000" by simp
  then have "k * 0x1000 \<le> a div 0x1000 * 0x1000" by simp
  then show ?thesis by (simp add: minus_mod_eq_div_mult)
qed

lemma two_regions_answer:
  assumes "two_regions a = Inr r"
  shows "BaseAddress r = a - a mod 0x1000
         \<and> (0 \<le> a \<and> a < 0x10000 \<and> BaseAddress r + RegionSize r = 0x10000
            \<or> 0x10000 \<le> a \<and> a < 0x7FFF0000 \<and> BaseAddress r + RegionSize r = 0x7FFF0000)"
  using assms by (auto simp: two_regions_def region_of_def split: if_splits)

lemma covering_two_regions: "covering two_regions"
  unfolding covering_def
proof (intro allI impI)
  fix a r assume q: "two_regions a = Inr r"
  note ra = two_regions_answer [OF q]
  have z: "0 \<le> BaseAddress r" using ra page_ge [of 0 a] by auto
  have l: "BaseAddress r \<le> a" using ra page_le [of a] by simp
  have u: "a < BaseAddress r + RegionSize r" using ra by auto
  have n: "BaseAddress r + RegionSize r \<le> BaseAddress r'"
    if "BaseAddress r + RegionSize r \<le> b \<and> two_regions b = Inr r'" for b r'
  proof -
    from that have b: "BaseAddress r + RegionSize r \<le> b" and q': "two_regions b = Inr r'" by simp_all
    note rb = two_regions_answer [OF q']
    from ra consider "BaseAddress r + RegionSize r = 0x10000" | "BaseAddress r + RegionSize r = 0x7FFF0000"
      by auto
    then show ?thesis
    proof cases
      case 1
      with b page_ge [of 16 b] rb show ?thesis by simp
    next
      case 2
      with b rb show ?thesis by auto
    qed
  qed
  from z l u n
  show "0 \<le> BaseAddress r \<and> BaseAddress r \<le> a \<and> a < BaseAddress r + RegionSize r
        \<and> (\<forall>b r'. BaseAddress r + RegionSize r \<le> b \<and> two_regions b = Inr r' \<longrightarrow>
               BaseAddress r + RegionSize r \<le> BaseAddress r')"
    by blast
qed

lemma query_memory_same_bitness:
  "query_memory K 64 self_bitness (Inr h) = VirtualQueryEx K h"
  by (rule ext) (simp add: query_memory_def)

text \<open>
  On the 32-to-64 branch the status \<open>0xC000000D\<close> leaves \<open>query_memory\<close> as a
  \<open>Kernel32Error\<close>, which ends the enumeration by \<open>return\<close>.
\<close>

lemma query_memory_converts_status:
  "query_memory two_regions_kernel 32 (Inr 64) (Inr h) a =
     Inl (Kernel32Error ''NtQueryVirtualMemory_32_to_64'')
   \<and> memory_state (query_memory two_regions_kernel 32 (Inr 64) (Inr h)) = Some ([], None)"
proof -
  have m: "(- 1073741811 :: int) AND 0xffffffff = 0xC000000D"
    by (simp add: and_int.rec [of "- 1073741811"] and_int.rec [of _ 4294967295]) 
  have q: "query_memory two_regions_kernel 32 (Inr 64) (Inr h) a =
     Inl (Kernel32Error ''NtQueryVirtualMemory_32_to_64'')" for a
    using m by (simp add: query_memory_def two_regions_kernel_def convert_status_def)
  then show ?thesis
    unfolding memory_state_def
    by (subst memory_state_loop.simps) (simp add: is_Kernel32Error_def)
qed

text \<open>
  On an object whose handle is stored, and whose bitness is stored where it is read,
  \<open>query_memory\<close> changes nothing: the enumeration is the enumeration over the answers
  of the queries, it leaves the object as it was, and a second run repeats the first.
\<close>

lemma cached_handle_kept:
  "process_handle self = Some h \<Longrightarrow> process_get_handle os self tr = (Inr h, self, tr)"
  by (simp add: process_get_handle_def handle_def)

lemma cached_bitness_kept:
  "process_bitness self = Some b \<Longrightarrow> bitness system_bitness os self tr = (Inr b, self, tr)"
  by (simp add: bitness_def)

lemma Process_query_memory_cached:
  assumes "process_handle self = Some h"
      and "current_bitness = 32 \<longrightarrow> process_bitness self = Some b"
  shows "Process_query_memory K current_bitness system_bitness os self addr tr =
           (query_memory K current_bitness (Inr b) (Inr h) addr, self, tr)"
  using assms
  by (auto simp: Process_query_memory_def query_memory_def cached_handle_kept cached_bitness_kept
      split: sum.splits)

lemma pure_loop_in_Process_loop:
  assumes "memory_state_loop q a ys = Some r"
  shows "q = query_memory K current_bitness (Inr b) (Inr h) \<longrightarrow>
         process_handle self = Some h \<longrightarrow> (current_bitness = 32 \<longrightarrow> process_bitness self = Some b) \<longrightarrow>
         Process_memory_state_loop K current_bitness system_bitness os self a ys tr = Some (r, self, tr)"
proof (rule memory_state_loop.raw_induct
    [where P = "\<lambda>q a ys r. q = query_memory K current_bitness (Inr b) (Inr h) \<longrightarrow>
         process_handle self = Some h \<longrightarrow> (current_bitness = 32 \<longrightarrow> process_bitness self = Some b) \<longrightarrow>
         Process_memory_state_loop K current_bitness system_bitness os self a ys tr = Some (r, self, tr)",
     OF _ assms], goal_cases)
  case (1 f q a ys r)
  show ?case
  proof (intro impI)
    assume q: "q = query_memory K current_bitness (Inr b) (Inr h)"
      and h: "process_handle self = Some h"
      and bb: "current_bitness = 32 \<longrightarrow> process_bitness self = Some b"
    note pq = Process_query_memory_cached [OF h bb, of K system_bitness os _ tr]
    show "Process_memory_state_loop K current_bitness system_bitness os self a ys tr = Some (r, self, tr)"
    proof (cases "q a")
      case (Inl e)
      with 1(2) have "r = (ys, if is_Kernel32Error e then None else Some e)" by simp
      with Inl q pq [of a] show ?thesis by (subst Process_memory_state_loop.simps) simp
    next
      case (Inr x)
      with 1(2) have "f q (a + RegionSize x) (ys @ [x]) = Some r" by simp
      from 1(1) [OF this] q h bb
      have "Process_memory_state_loop K current_bitness system_bitness os self
              (a + RegionSize x) (ys @ [x]) tr = Some (r, self, tr)" by simp
      with Inr q pq [of a] show ?thesis by (subst Process_memory_state_loop.simps) simp
    qed
  qed
qed

lemma Process_loop_in_pure_loop:
  assumes "Process_memory_state_loop K current_bitness system_bitness os self a ys tr = Some y"
  shows "process_handle self = Some h \<longrightarrow> (current_bitness = 32 \<longrightarrow> process_bitness self = Some b) \<longrightarrow>
         (\<exists>r. y = (r, self, tr)
              \<and> memory_state_loop (query_memory K current_bitness (Inr b) (Inr h)) a ys = Some r)"
proof (rule Process_memory_state_loop.raw_induct
    [where P = "\<lambda>K current_bitness system_bitness os self a ys tr y.
         process_handle self = Some h \<longrightarrow> (current_bitness = 32 \<longrightarrow> process_bitness self = Some b) \<longrightarrow>
         (\<exists>r. y = (r, self, tr)
              \<and> memory_state_loop (query_memory K current_bitness (Inr b) (Inr h)) a ys = Some r)",
     OF _ assms], goal_cases)
  case (1 f K current_bitness system_bitness os self a ys tr y)
  show ?case
  proof (intro impI)
    assume h: "process_handle self = Some h"
      and bb: "current_bitness = 32 \<longrightarrow> process_bitness self = Some b"
    note pq = Process_query_memory_cached [OF h bb, of K system_bitness os a tr]
    let ?q = "query_memory K current_bitness (Inr b) (Inr h)"
    show "\<exists>r. y = (r, self, tr) \<and> memory_state_loop ?q a ys = Some r"
    proof (cases "?q a")
      case (Inl e)
      with 1(2) pq have "y = ((ys, if is_Kernel32Error e then None else Some e), self, tr)" by simp
      moreover from Inl have "memory_state_loop ?q a ys =
          Some (ys, if is_Kernel32Error e then None else Some e)"
        by (subst memory_state_loop.simps) simp
      ultimately show ?thesis by simp
    next
      case (Inr x)
      with 1(2) pq have "f K current_bitness system_bitness os self (a + RegionSize x) (ys @ [x]) tr = Some y"
        by simp
      from 1(1) [OF this] h bb obtain r where r: "y = (r, self, tr)"
          "memory_state_loop ?q (a + RegionSize x) (ys @ [x]) = Some r" by blast
      from r(2) Inr have "memory_state_loop ?q a ys = Some r"
        by (subst memory_state_loop.simps) simp
      with r(1) show ?thesis by simp
    qed
  qed
qed

lemma Process_memory_state_cached:
  assumes h: "process_handle self = Some h"
      and bb: "current_bitness = 32 \<longrightarrow> process_bitness self = Some b"
  shows "Process_memory_state K current_bitness system_bitness os self tr =
           map_option (\<lambda>r. (r, self, tr)) (memory_state (query_memory K current_bitness (Inr b) (Inr h)))"
proof (cases "memory_state (query_memory K current_bitness (Inr b) (Inr h))")
  case (Some r)
  with pure_loop_in_Process_loop [of _ 0 "[]" r K current_bitness b h self system_bitness os tr] h bb
  show ?thesis by (simp add: Process_memory_state_def memory_state_def)
next
  case None
  show ?thesis
  proof (cases "Process_memory_state K current_bitness system_bitness os self tr")
    case None': None
    with None show ?thesis by simp
  next
    case (Some y)
    with Process_loop_in_pure_loop [of K current_bitness system_bitness os self 0 "[]" tr y h b] h bb None
    show ?thesis by (simp add: Process_memory_state_def memory_state_def)
  qed
qed


lemma cached_run_repeats:
  assumes "process_handle self = Some h"
      and "current_bitness = 32 \<longrightarrow> process_bitness self = Some b"
      and "Process_memory_state K current_bitness system_bitness os self tr = Some (r, self', tr')"
  shows "self' = self \<and> tr' = tr
         \<and> Process_memory_state K current_bitness system_bitness os self' tr' = Some (r, self', tr')"
  using assms Process_memory_state_cached [OF assms(1,2), of K system_bitness os tr] by auto

text \<open>
  The enumeration over the answers of the queries. It queries address \<open>0\<close> first and,
  after yielding a region, queries the address advanced by exactly that region's size.
  When the first failing query is the one numbered \<open>n\<close>, it ends there, having yielded
  the \<open>n\<close> regions found before, and it ends by \<open>return\<close> when the failure is a
  \<open>Kernel32Error\<close>; when no query fails it never ends. Under the contract of the kernel
  query every region yielded begins where the one before ended, the regions yielded
  are distinct, and every address below the end lies in exactly one of them.
\<close>

lemma memory_state_enumerates:
  "((\<forall>i<n. \<not> isl (q (addr_after q 0 i))) \<and> q (addr_after q 0 n) = Inl e \<longrightarrow>
      memory_state q = Some (map (region_at q) [0..<n], if is_Kernel32Error e then None else Some e)
      \<and> addr_after q 0 0 = 0
      \<and> (\<forall>i<n. addr_after q 0 (Suc i) = addr_after q 0 i + RegionSize (region_at q i))
      \<and> (\<forall>i<n. memory_state_next q (Some (addr_after q 0 i)) =
                  (Yield (region_at q i), Some (addr_after q 0 (Suc i))))
      \<and> memory_state_next q (Some (addr_after q 0 n)) =
            (if is_Kernel32Error e then StopIteration else Raise e, None)
      \<and> (covering q \<longrightarrow>
            distinct (map (region_at q) [0..<n])
            \<and> (\<forall>i<n. BaseAddress (region_at q i) = addr_after q 0 i)
            \<and> (\<forall>a. 0 \<le> a \<and> a < addr_after q 0 n \<longrightarrow>
                   (\<exists>!i. i < n \<and> inside a (region_at q i)))))
   \<and> ((\<forall>i. \<not> isl (q (addr_after q 0 i))) \<longrightarrow> memory_state q = None)"
proof (intro conjI impI)
  assume "\<forall>i. \<not> isl (q (addr_after q 0 i))"
  then show "memory_state q = None" by (simp add: memory_state_def memory_state_loop_endless)
next
  assume a: "(\<forall>i<n. \<not> isl (q (addr_after q 0 i))) \<and> q (addr_after q 0 n) = Inl e"
  then have ok: "\<forall>i<n. \<not> isl (q (addr_after q 0 i))" and stop: "q (addr_after q 0 n) = Inl e"
    by simp_all
  have m: "map (\<lambda>i. projr (q (addr_after q 0 i))) [0..<n] = map (region_at q) [0..<n]"
    by (simp add: region_at_def)
  show "memory_state q = Some (map (region_at q) [0..<n], if is_Kernel32Error e then None else Some e)"
    using memory_state_loop_stops [OF ok stop, of "[]"] m by (simp add: memory_state_def)
  show "addr_after q 0 0 = 0" by simp
  have st: "addr_after q 0 (Suc i) = addr_after q 0 i + RegionSize (region_at q i)" if "i < n" for i
    using addr_after_step [of q 0 i] ok that by (simp add: region_at_def)
  then show "\<forall>i<n. addr_after q 0 (Suc i) = addr_after q 0 i + RegionSize (region_at q i)" by blast
  show "\<forall>i<n. memory_state_next q (Some (addr_after q 0 i)) =
                  (Yield (region_at q i), Some (addr_after q 0 (Suc i)))"
  proof (intro allI impI)
    fix i assume i: "i < n"
    with ok have "\<not> isl (q (addr_after q 0 i))" by blast
    then have "q (addr_after q 0 i) = Inr (region_at q i)"
      by (cases "q (addr_after q 0 i)") (simp_all add: region_at_def)
    with st [OF i] show "memory_state_next q (Some (addr_after q 0 i)) =
                  (Yield (region_at q i), Some (addr_after q 0 (Suc i)))"
      by (simp add: memory_state_next_def)
  qed
  show "memory_state_next q (Some (addr_after q 0 n)) =
            (if is_Kernel32Error e then StopIteration else Raise e, None)"
    using stop by (simp add: memory_state_next_def)
  {
    assume c: "covering q"
    show "distinct (map (region_at q) [0..<n])" by (rule covering_distinct [OF c ok])
    show "\<forall>i<n. BaseAddress (region_at q i) = addr_after q 0 i"
      using covering_bases [OF c ok] by blast
    show "\<forall>a. 0 \<le> a \<and> a < addr_after q 0 n \<longrightarrow> (\<exists>!i. i < n \<and> inside a (region_at q i))"
    proof (intro allI impI)
      fix a assume "0 \<le> a \<and> a < addr_after q 0 n"
      with covering_all [OF c ok, of n a] obtain i where i: "i < n" "inside a (region_at q i)"
        by auto
      show "\<exists>!i. i < n \<and> inside a (region_at q i)"
      proof (rule ex1I [of _ i])
        from i show "i < n \<and> inside a (region_at q i)" by simp
      next
        fix j assume "j < n \<and> inside a (region_at q j)"
        with covering_once [OF c ok, of j i a] i show "j = i" by simp
      qed
    qed
  }
qed

text \<open>
  The enumeration of the two regions: the second query is at the end of the first
  region, and an address inside a region is answered by the record of its own page.
\<close>

lemma memory_state_two_regions:
  "query_memory two_regions_kernel 64 (Inr 64) (Inr 9) = two_regions
   \<and> covering two_regions
   \<and> memory_state two_regions = Some ([region_of 0 0x10000, region_of 0x10000 0x7FFE0000], None)
   \<and> two_regions 0x12345 = Inr ((region_of 0x12000 0x7FFDE000)\<lparr>AllocationBase := 0x10000\<rparr>)
   \<and> inside 0x12345 (region_of 0x10000 0x7FFE0000)
   \<and> \<not> inside 0x12345 (region_of 0 0x10000)
   \<and> memory_state endless_regions = None"
proof -
  have k: "query_memory two_regions_kernel 64 (Inr 64) (Inr 9) = two_regions"
    by (simp add: query_memory_same_bitness two_regions_kernel_def)
  have a: "addr_after two_regions 0 0 = 0" "addr_after two_regions 0 (Suc 0) = 0x10000"
          "addr_after two_regions 0 (Suc (Suc 0)) = 0x7FFF0000"
    by (simp_all add: two_regions_def region_of_def)
  have q: "two_regions 0 = Inr (region_of 0 0x10000)"
          "two_regions 0x10000 = Inr (region_of 0x10000 0x7FFE0000)"
          "two_regions 0x7FFF0000 = Inl (Kernel32Error ''VirtualQueryEx'')"
          "two_regions 0x12345 = Inr ((region_of 0x12000 0x7FFDE000)\<lparr>AllocationBase := 0x10000\<rparr>)"
    by (simp_all add: two_regions_def region_of_def)
  have r: "region_at two_regions 0 = region_of 0 0x10000"
          "region_at two_regions (Suc 0) = region_of 0x10000 0x7FFE0000"
    using a q by (simp_all add: region_at_def)
  have ok: "\<forall>i<2. \<not> isl (two_regions (addr_after two_regions 0 i))"
    using a q by (simp add: numeral_2_eq_2 All_less_Suc)
  have stop: "two_regions (addr_after two_regions 0 2) = Inl (Kernel32Error ''VirtualQueryEx'')"
    using a q by (simp add: numeral_2_eq_2)
  from memory_state_enumerates [of 2 two_regions "Kernel32Error ''VirtualQueryEx''"] ok stop
  have "memory_state two_regions = Some (map (region_at two_regions) [0..<2],
          if is_Kernel32Error (Kernel32Error ''VirtualQueryEx'') then None
          else Some (Kernel32Error ''VirtualQueryEx''))"
    by blast
  then have t: "memory_state two_regions = Some ([region_of 0 0x10000, region_of 0x10000 0x7FFE0000], None)"
    using r by (simp add: numeral_2_eq_2 is_Kernel32Error_def)
  have "\<forall>i. \<not> isl (endless_regions (addr_after endless_regions 0 i))"
    by (simp add: endless_regions_def)
  with memory_state_enumerates [of 0 endless_regions KeyError]
  have e: "memory_state endless_regions = None" by blast
  have i: "inside 0x12345 (region_of 0x10000 0x7FFE0000)" "\<not> inside 0x12345 (region_of 0 0x10000)"
    by (simp_all add: inside_def region_of_def)
  from t q covering_two_regions e k i show ?thesis by simp
qed

text \<open>
  C4. The enumeration is not restartable on a process whose name does not decode. The
  first run reads \<open>self.handle\<close>, which stores the handle and then raises
  \<open>UnicodeDecodeError\<close> while it formats the message of \<open>dbgprint\<close>: the run yields no
  region and ends with that exception. The second run, over the same address space,
  finds the handle stored and yields the two regions.
\<close>

theorem memory_state_second_run_differs:
  "Process_memory_state two_regions_kernel 64 64 (\<lambda>c. Inr 44) cafe [] =
     Some (([], Some UnicodeDecodeError), cafe\<lparr>process_handle := Some 44\<rparr>, [OpenProcess 1234])
   \<and> Process_memory_state two_regions_kernel 64 64 (\<lambda>c. Inr 44)
       (cafe\<lparr>process_handle := Some 44\<rparr>) [OpenProcess 1234] =
     Some (([region_of 0 0x10000, region_of 0x10000 0x7FFE0000], None),
           cafe\<lparr>process_handle := Some 44\<rparr>, [OpenProcess 1234])"
proof -
  have n: "process_repr_raises cafe = Some UnicodeDecodeError"
    by (simp add: process_repr_raises_def WinProcess_name_def cafe_def)
  have o: "th32ProcessID cafe = 1234" "process_handle cafe = None" by (simp_all add: cafe_def)
  have g: "process_get_handle (\<lambda>c. Inr 44) cafe [] =
             (Inl UnicodeDecodeError, cafe\<lparr>process_handle := Some 44\<rparr>, [OpenProcess 1234])"
    using n o by (simp add: process_get_handle_def handle_def get_handle_def syscall_def format_self_def)
  have q: "Process_query_memory two_regions_kernel 64 64 (\<lambda>c. Inr 44) cafe 0 [] =
             (Inl UnicodeDecodeError, cafe\<lparr>process_handle := Some 44\<rparr>, [OpenProcess 1234])"
    using g by (simp add: Process_query_memory_def)
  have first: "Process_memory_state two_regions_kernel 64 64 (\<lambda>c. Inr 44) cafe [] =
     Some (([], Some UnicodeDecodeError), cafe\<lparr>process_handle := Some 44\<rparr>, [OpenProcess 1234])"
    unfolding Process_memory_state_def using q
    by (subst Process_memory_state_loop.simps) (simp add: is_Kernel32Error_def)
  have h: "process_handle (cafe\<lparr>process_handle := Some 44\<rparr>) = Some 44" by simp
  have a: "addr_after two_regions 0 0 = 0" "addr_after two_regions 0 (Suc 0) = 0x10000"
          "addr_after two_regions 0 (Suc (Suc 0)) = 0x7FFF0000"
    by (simp_all add: two_regions_def region_of_def)
  have t: "two_regions 0 = Inr (region_of 0 0x10000)"
          "two_regions 0x10000 = Inr (region_of 0x10000 0x7FFE0000)"
          "two_regions 0x7FFF0000 = Inl (Kernel32Error ''VirtualQueryEx'')"
    by (simp_all add: two_regions_def region_of_def)
  have ok: "\<forall>i<2. \<not> isl (two_regions (addr_after two_regions 0 i))"
    using a t by (simp add: numeral_2_eq_2 All_less_Suc)
  have stop: "two_regions (addr_after two_regions 0 2) = Inl (Kernel32Error ''VirtualQueryEx'')"
    using a t by (simp add: numeral_2_eq_2)
  have m: "memory_state two_regions = Some ([region_of 0 0x10000, region_of 0x10000 0x7FFE0000], None)"
    using memory_state_loop_stops [OF ok stop, of "[]"] a t
    by (simp add: memory_state_def numeral_2_eq_2 is_Kernel32Error_def)
  have k: "query_memory two_regions_kernel 64 (Inr 64) (Inr 44) = two_regions"
    by (simp add: query_memory_same_bitness two_regions_kernel_def)
  have second: "Process_memory_state two_regions_kernel 64 64 (\<lambda>c. Inr 44)
       (cafe\<lparr>process_handle := Some 44\<rparr>) [OpenProcess 1234] =
     Some (([region_of 0 0x10000, region_of 0x10000 0x7FFE0000], None),
           cafe\<lparr>process_handle := Some 44\<rparr>, [OpenProcess 1234])"
    using Process_memory_state_cached [OF h, of 64 64 two_regions_kernel 64 "\<lambda>c. Inr 44" "[OpenProcess 1234]"]
      k m by simp
  from first second show ?thesis by simp
qed

section \<open>The toolhelp enumerations\<close>

lemma upt_shift: "map (\<lambda>i. n + i) [0..<Suc k] = n # map (\<lambda>i. Suc n + i) [0..<k]"
  by (simp add: upt_conv_Cons map_Suc_upt [symmetric] del: upt_Suc)

lemma Process32Next_loop_collects:
  assumes "snapshots w snap = Some (sys, c)" and "c \<le> length sys" and "entry < length (objects w)"
  shows "Process32Next_loop snap entry res w =
           (Inr (res @ map (\<lambda>i. length (objects w) + i) [0..<length sys - c]),
            w\<lparr>objects := (objects w)[entry := (if c < length sys then last sys else objects w ! entry)]
                           @ drop c sys,
              snapshots := (snapshots w)(snap \<mapsto> (sys, length sys))\<rparr>)"
  using assms
proof (induction "length sys - c" arbitrary: c res w)
  case 0
  then have c: "c = length sys" by simp
  with 0 have n: "toolhelp_next ''Process32Next'' snap entry w = (Inr False, w)"
    by (simp add: toolhelp_next_def)
  have "(snapshots w)(snap \<mapsto> (sys, length sys)) = snapshots w"
    using 0 c by (simp add: map_upd_triv)
  with n c Process32Next_loop.simps [of snap entry res w] show ?case
    by (simp del: Process32Next_loop.simps)
next
  case (Suc d)
  then have c: "c < length sys" and d: "d = length sys - Suc c" by simp_all
  define w' where "w' = w\<lparr>objects := (objects w)[entry := sys ! c],
                           snapshots := (snapshots w)(snap \<mapsto> (sys, Suc c))\<rparr>"
  define w'' where "w'' = w'\<lparr>objects := objects w' @ [sys ! c]\<rparr>"
  have n: "toolhelp_next ''Process32Next'' snap entry w = (Inr True, w')"
    using Suc.prems c by (simp add: toolhelp_next_def w'_def)
  have cp: "swallow_ctypes_copy entry w' = (length (objects w), w'')"
    using Suc.prems by (simp add: swallow_ctypes_copy_def new_object_def w'_def w''_def)
  have s'': "snapshots w'' snap = Some (sys, Suc c)" by (simp add: w''_def w'_def)
  have e'': "entry < length (objects w'')" using Suc.prems by (simp add: w''_def w'_def)
  have l'': "length (objects w'') = Suc (length (objects w))" by (simp add: w''_def w'_def)
  have v: "(if Suc c < length sys then last sys else objects w'' ! entry) = last sys"
  proof (cases "Suc c < length sys")
    case False
    with c have "Suc c = length sys" by simp
    then have "sys ! c = last sys" by (metis c diff_Suc_1 last_conv_nth length_greater_0_conv less_nat_zero_code list.size(3))
    with False Suc.prems show ?thesis by (simp add: w''_def w'_def nth_append)
  qed simp
  have "Process32Next_loop snap entry res w =
          Process32Next_loop snap entry (res @ [length (objects w)]) w''"
    using Process32Next_loop.simps [of snap entry res w] n cp
    by (simp del: Process32Next_loop.simps)
  also have "\<dots> = (Inr ((res @ [length (objects w)])
                        @ map (\<lambda>i. length (objects w'') + i) [0..<length sys - Suc c]),
            w''\<lparr>objects := (objects w'')[entry := (if Suc c < length sys then last sys
                                                   else objects w'' ! entry)] @ drop (Suc c) sys,
              snapshots := (snapshots w'')(snap \<mapsto> (sys, length sys))\<rparr>)"
    using c by (intro Suc.hyps(1) [OF d s'' _ e'']) simp
  also have "(res @ [length (objects w)]) @ map (\<lambda>i. length (objects w'') + i) [0..<length sys - Suc c]
        = res @ map (\<lambda>i. length (objects w) + i) [0..<length sys - c]"
    using upt_shift [of "length (objects w)" "length sys - Suc c"] c l''
    by (simp add: Suc_diff_Suc del: upt_Suc)
  also have "w''\<lparr>objects := (objects w'')[entry := (if Suc c < length sys then last sys
                                                   else objects w'' ! entry)] @ drop (Suc c) sys,
              snapshots := (snapshots w'')(snap \<mapsto> (sys, length sys))\<rparr>
        = w\<lparr>objects := (objects w)[entry := (if c < length sys then last sys else objects w ! entry)]
                           @ drop c sys,
              snapshots := (snapshots w)(snap \<mapsto> (sys, length sys))\<rparr>"
    unfolding v using c Suc.prems(3)
    by (simp add: w''_def w'_def list_update_append1 Cons_nth_drop_Suc)
  finally show ?case .
qed


lemma Thread32Next_loop_collects:
  assumes "snapshots w snap = Some (sys, c)" and "c \<le> length sys" and "entry < length (objects w)"
  shows "Thread32Next_loop snap entry res w =
           (Inr (res @ map (\<lambda>i. length (objects w) + i) [0..<length sys - c]),
            w\<lparr>objects := (objects w)[entry := (if c < length sys then last sys else objects w ! entry)]
                           @ drop c sys,
              snapshots := (snapshots w)(snap \<mapsto> (sys, length sys))\<rparr>)"
  using assms
proof (induction "length sys - c" arbitrary: c res w)
  case 0
  then have c: "c = length sys" by simp
  with 0 have n: "toolhelp_next ''Thread32Next'' snap entry w = (Inr False, w)"
    by (simp add: toolhelp_next_def)
  have "(snapshots w)(snap \<mapsto> (sys, length sys)) = snapshots w"
    using 0 c by (simp add: map_upd_triv)
  with n c Thread32Next_loop.simps [of snap entry res w] show ?case
    by (simp del: Thread32Next_loop.simps)
next
  case (Suc d)
  then have c: "c < length sys" and d: "d = length sys - Suc c" by simp_all
  define w' where "w' = w\<lparr>objects := (objects w)[entry := sys ! c],
                           snapshots := (snapshots w)(snap \<mapsto> (sys, Suc c))\<rparr>"
  define w'' where "w'' = w'\<lparr>objects := objects w' @ [sys ! c]\<rparr>"
  have n: "toolhelp_next ''Thread32Next'' snap entry w = (Inr True, w')"
    using Suc.prems c by (simp add: toolhelp_next_def w'_def)
  have cp: "copy_copy entry w' = (length (objects w), w'')"
    using Suc.prems by (simp add: copy_copy_def new_object_def w'_def w''_def)
  have s'': "snapshots w'' snap = Some (sys, Suc c)" by (simp add: w''_def w'_def)
  have e'': "entry < length (objects w'')" using Suc.prems by (simp add: w''_def w'_def)
  have l'': "length (objects w'') = Suc (length (objects w))" by (simp add: w''_def w'_def)
  have v: "(if Suc c < length sys then last sys else objects w'' ! entry) = last sys"
  proof (cases "Suc c < length sys")
    case False
    with c have "Suc c = length sys" by simp
    then have "sys ! c = last sys" by (metis c diff_Suc_1 last_conv_nth length_greater_0_conv less_nat_zero_code list.size(3))
    with False Suc.prems show ?thesis by (simp add: w''_def w'_def nth_append)
  qed simp
  have "Thread32Next_loop snap entry res w =
          Thread32Next_loop snap entry (res @ [length (objects w)]) w''"
    using Thread32Next_loop.simps [of snap entry res w] n cp
    by (simp del: Thread32Next_loop.simps)
  also have "\<dots> = (Inr ((res @ [length (objects w)])
                        @ map (\<lambda>i. length (objects w'') + i) [0..<length sys - Suc c]),
            w''\<lparr>objects := (objects w'')[entry := (if Suc c < length sys then last sys
                                                   else objects w'' ! entry)] @ drop (Suc c) sys,
              snapshots := (snapshots w'')(snap \<mapsto> (sys, length sys))\<rparr>)"
    using c by (intro Suc.hyps(1) [OF d s'' _ e'']) simp
  also have "(res @ [length (objects w)]) @ map (\<lambda>i. length (objects w'') + i) [0..<length sys - Suc c]
        = res @ map (\<lambda>i. length (objects w) + i) [0..<length sys - c]"
    using upt_shift [of "length (objects w)" "length sys - Suc c"] c l''
    by (simp add: Suc_diff_Suc del: upt_Suc)
  also have "w''\<lparr>objects := (objects w'')[entry := (if Suc c < length sys then last sys
                                                   else objects w'' ! entry)] @ drop (Suc c) sys,
              snapshots := (snapshots w'')(snap \<mapsto> (sys, length sys))\<rparr>
        = w\<lparr>objects := (objects w)[entry := (if c < length sys then last sys else objects w ! entry)]
                           @ drop c sys,
              snapshots := (snapshots w)(snap \<mapsto> (sys, length sys))\<rparr>"
    unfolding v using c Suc.prems(3)
    by (simp add: w''_def w'_def list_update_append1 Cons_nth_drop_Suc)
  finally show ?case .
qed


lemma enumerate_processes_result:
  assumes "sys \<noteq> []"
  shows "enumerate_processes blank sys (Inr snap) w =
           (Inr (map (\<lambda>i. Suc (length (objects w)) + i) [0..<length sys]),
            w\<lparr>objects := objects w @ [last sys] @ sys,
              snapshots := (snapshots w)(snap \<mapsto> (sys, length sys))\<rparr>)"
proof -
  obtain e es where sys: "sys = e # es" using assms by (cases sys) auto
  define n where "n = length (objects w)"
  define w2 where "w2 = w\<lparr>objects := objects w @ [e], snapshots := (snapshots w)(snap \<mapsto> (sys, 1))\<rparr>"
  define w3 where "w3 = w2\<lparr>objects := objects w2 @ [e]\<rparr>"
  have f: "toolhelp_first ''Process32First'' snap n
             (CreateToolhelp32Snapshot sys snap (w\<lparr>objects := objects w @ [blank]\<rparr>)) = (Inr True, w2)"
    by (simp add: toolhelp_first_def CreateToolhelp32Snapshot_def sys w2_def n_def)
  have c: "swallow_ctypes_copy n w2 = (Suc n, w3)"
    by (simp add: swallow_ctypes_copy_def new_object_def w2_def w3_def n_def)
  have s3: "snapshots w3 snap = Some (sys, 1)" by (simp add: w3_def w2_def)
  have l3: "length (objects w3) = Suc (Suc n)" by (simp add: w3_def w2_def n_def)
  have v: "(if 1 < length sys then last sys else objects w3 ! n) = last sys"
    by (auto simp: sys w3_def w2_def n_def nth_append)
  have "enumerate_processes blank sys (Inr snap) w = Process32Next_loop snap n [Suc n] w3"
    using f c by (simp add: enumerate_processes_def new_object_def n_def
        del: Process32Next_loop.simps)
  also have "\<dots> = (Inr ([Suc n] @ map (\<lambda>i. length (objects w3) + i) [0..<length sys - 1]),
            w3\<lparr>objects := (objects w3)[n := (if 1 < length sys then last sys else objects w3 ! n)]
                           @ drop 1 sys,
              snapshots := (snapshots w3)(snap \<mapsto> (sys, length sys))\<rparr>)"
    using l3 by (intro Process32Next_loop_collects [OF s3]) (simp_all add: sys)
  also have "[Suc n] @ map (\<lambda>i. length (objects w3) + i) [0..<length sys - 1]
        = map (\<lambda>i. Suc n + i) [0..<length sys]"
    using upt_shift [of "Suc n" "length es"] l3 by (simp add: sys del: upt_Suc)
  also have "w3\<lparr>objects := (objects w3)[n := (if 1 < length sys then last sys else objects w3 ! n)]
                           @ drop 1 sys,
              snapshots := (snapshots w3)(snap \<mapsto> (sys, length sys))\<rparr>
        = w\<lparr>objects := objects w @ [last sys] @ sys,
              snapshots := (snapshots w)(snap \<mapsto> (sys, length sys))\<rparr>"
    unfolding v by (simp add: w3_def w2_def n_def sys list_update_append)
  finally show ?thesis by (simp add: n_def)
qed

lemma enumerate_threads_result:
  assumes "sys \<noteq> []"
  shows "enumerate_threads blank sys (Inr snap) w =
           (Inr (map (\<lambda>i. Suc (length (objects w)) + i) [0..<length sys]),
            w\<lparr>objects := objects w @ [last sys] @ sys,
              snapshots := (snapshots w)(snap \<mapsto> (sys, length sys))\<rparr>)"
proof -
  obtain e es where sys: "sys = e # es" using assms by (cases sys) auto
  define n where "n = length (objects w)"
  define w2 where "w2 = w\<lparr>objects := objects w @ [e], snapshots := (snapshots w)(snap \<mapsto> (sys, 1))\<rparr>"
  define w3 where "w3 = w2\<lparr>objects := objects w2 @ [e]\<rparr>"
  have f: "toolhelp_first ''Thread32First'' snap n
             (CreateToolhelp32Snapshot sys snap (w\<lparr>objects := objects w @ [blank]\<rparr>)) = (Inr True, w2)"
    by (simp add: toolhelp_first_def CreateToolhelp32Snapshot_def sys w2_def n_def)
  have c: "copy_copy n w2 = (Suc n, w3)"
    by (simp add: copy_copy_def new_object_def w2_def w3_def n_def)
  have s3: "snapshots w3 snap = Some (sys, 1)" by (simp add: w3_def w2_def)
  have l3: "length (objects w3) = Suc (Suc n)" by (simp add: w3_def w2_def n_def)
  have v: "(if 1 < length sys then last sys else objects w3 ! n) = last sys"
    by (auto simp: sys w3_def w2_def n_def nth_append)
  have "enumerate_threads blank sys (Inr snap) w = Thread32Next_loop snap n [Suc n] w3"
    using f c by (simp add: enumerate_threads_def new_object_def n_def
        del: Thread32Next_loop.simps)
  also have "\<dots> = (Inr ([Suc n] @ map (\<lambda>i. length (objects w3) + i) [0..<length sys - 1]),
            w3\<lparr>objects := (objects w3)[n := (if 1 < length sys then last sys else objects w3 ! n)]
                           @ drop 1 sys,
              snapshots := (snapshots w3)(snap \<mapsto> (sys, length sys))\<rparr>)"
    using l3 by (intro Thread32Next_loop_collects [OF s3]) (simp_all add: sys)
  also have "[Suc n] @ map (\<lambda>i. length (objects w3) + i) [0..<length sys - 1]
        = map (\<lambda>i. Suc n + i) [0..<length sys]"
    using upt_shift [of "Suc n" "length es"] l3 by (simp add: sys del: upt_Suc)
  also have "w3\<lparr>objects := (objects w3)[n := (if 1 < length sys then last sys else objects w3 ! n)]
                           @ drop 1 sys,
              snapshots := (snapshots w3)(snap \<mapsto> (sys, length sys))\<rparr>
        = w\<lparr>objects := objects w @ [last sys] @ sys,
              snapshots := (snapshots w)(snap \<mapsto> (sys, length sys))\<rparr>"
    unfolding v by (simp add: w3_def w2_def n_def sys list_update_append)
  finally show ?thesis by (simp add: n_def)
qed

lemma copies_hold_entries:
  "map (\<lambda>i. (xs @ [x] @ sys) ! (Suc (length xs) + i)) [0..<length sys] = sys"
  by (intro nth_equalityI) (simp_all add: nth_append)

text \<open>
  C5, amended. On a snapshot with at least one entry, \<open>enumerate_processes\<close> and
  \<open>enumerate_threads\<close> return references to new structures, one per entry and in the
  order of the snapshot; when the function returns each of them holds its own entry,
  whatever the kernel wrote later into the structure it was copied from, and the
  structures that existed before are untouched. The snapshot handle is still open
  when the function returns: neither function closes it.
\<close>

theorem enumerate_returns_owned_copies:
  assumes "sys \<noteq> []"
  shows "(case enumerate_processes blank sys (Inr snap) w of
            (res, w') \<Rightarrow>
              res = Inr (map (\<lambda>i. Suc (length (objects w)) + i) [0..<length sys])
              \<and> map (\<lambda>i. objects w' ! (Suc (length (objects w)) + i)) [0..<length sys] = sys
              \<and> take (length (objects w)) (objects w') = objects w
              \<and> snapshot_open snap w')
       \<and> (case enumerate_threads blank sys (Inr snap) w of
            (threads, w') \<Rightarrow>
              threads = Inr (map (\<lambda>i. Suc (length (objects w)) + i) [0..<length sys])
              \<and> map (\<lambda>i. objects w' ! (Suc (length (objects w)) + i)) [0..<length sys] = sys
              \<and> take (length (objects w)) (objects w') = objects w
              \<and> snapshot_open snap w')"
  using copies_hold_entries [of "objects w" "last sys" sys]
  by (simp add: enumerate_processes_result [OF assms] enumerate_threads_result [OF assms]
      snapshot_open_def)

text \<open>
  C5, as stated, fails: after an enumeration of two entries under the snapshot handle
  \<open>7\<close>, the handle is still open.
\<close>

theorem snapshot_handle_left_open:
  "fst (enumerate_processes blank_process [system_process, explorer] (Inr 7) empty_world) = Inr [1, 2]
   \<and> snapshot_open 7 (snd (enumerate_processes blank_process [system_process, explorer] (Inr 7) empty_world))
   \<and> fst (enumerate_threads blank_thread [orphan_thread, explorer_thread] (Inr 7) empty_world) = Inr [1, 2]
   \<and> snapshot_open 7 (snd (enumerate_threads blank_thread [orphan_thread, explorer_thread] (Inr 7) empty_world))"
  by (simp add: enumerate_processes_result enumerate_threads_result snapshot_open_def empty_world_def
      upt_rec)

theorem enumerate_returns_owned_copies_witness:
  "[system_process, explorer] \<noteq> []
   \<and> fst (enumerate_processes blank_process [system_process, explorer] (Inr 7) empty_world) = Inr [1, 2]
   \<and> map (\<lambda>r. objects (snd (enumerate_processes blank_process [system_process, explorer] (Inr 7)
                empty_world)) ! r) [1, 2] = [system_process, explorer]"
proof -
  have n: "[system_process, explorer] \<noteq> []" by simp
  obtain res w' where r: "enumerate_processes blank_process [system_process, explorer] (Inr 7)
      (empty_world :: winprocess world) = (res, w')"
    by (cases "enumerate_processes blank_process [system_process, explorer] (Inr 7)
      (empty_world :: winprocess world)")
  from enumerate_returns_owned_copies [OF n, where blank = blank_process and snap = 7
      and w = empty_world] r
  have "res = Inr (map (\<lambda>i. Suc (length (objects (empty_world :: winprocess world))) + i) [0..<2])"
       "map (\<lambda>i. objects w' ! (Suc (length (objects (empty_world :: winprocess world))) + i)) [0..<2]
          = [system_process, explorer]"
    by (simp_all add: upt_rec)
  then show ?thesis using r by (simp add: empty_world_def numeral_2_eq_2)
qed

section \<open>Threads whose owner is gone\<close>

lemma no_owner_found:
  "\<forall>p \<in> set ps. th32ProcessID p \<noteq> th32OwnerProcessID self \<Longrightarrow>
     filter (\<lambda>process. th32ProcessID process = th32OwnerProcessID self) ps = []"
  by (induction ps) auto

lemma owner_bitness_of_none:
  "thread_owner self = Some None \<Longrightarrow>
     owner_bitness system_bitness os processes self tr = (Inl (AttributeError ''bitness''), self, tr)"
  by (simp add: owner_bitness_def owner_def)

text \<open>
  A thread whose owner is in the enumeration: on a 64-bit system, from a 64-bit
  controller, with a kernel that answers \<open>IsWow64Process\<close> with false, \<open>context\<close>
  opens the process and the thread and returns a 64-bit context.
\<close>

lemma context_of_owned_thread:
  "fst (context 64 64 (\<lambda>c. case c of IsWow64Process h \<Rightarrow> Inr 0 | _ \<Rightarrow> Inr 5)
          (Inr [system_process, explorer]) explorer_thread []) = Inr (ECONTEXT64 5)
   \<and> snd (snd (context 64 64 (\<lambda>c. case c of IsWow64Process h \<Rightarrow> Inr 0 | _ \<Rightarrow> Inr 5)
          (Inr [system_process, explorer]) explorer_thread [])) =
        [OpenProcess 1234, IsWow64Process 5, OpenThread 78, GetThreadContext 5]"
  by (simp add: context_def owner_bitness_def owner_def owner_body_def bitness_def is_wow_64_def
      process_get_handle_def thread_get_handle_def handle_def get_handle_def syscall_def
      fetch_context_def explorer_thread_def system_process_def explorer_def format_self_def
      process_repr_raises_def thread_repr_raises_def WinProcess_name_def)

text \<open>
  C10. For a thread with no cached owner whose owner pid is the pid of no process of
  the enumeration, \<open>owner\<close> returns \<open>None\<close> and stores it in \<open>_owner\<close>. From then on,
  whatever a later enumeration would hold, \<open>owner\<close> returns the cached \<open>None\<close>, and
  \<open>context\<close>, \<open>set_context\<close> and \<open>start_address\<close> each raise the \<open>AttributeError\<close> of
  reading \<open>bitness\<close> on \<open>None\<close>, before any kernel call.
\<close>

theorem orphan_thread_owner_is_none:
  assumes "thread_owner self = None"
      and "\<forall>p \<in> set ps. th32ProcessID p \<noteq> th32OwnerProcessID self"
  shows "owner (Inr ps) self = (Inr None, self\<lparr>thread_owner := Some None\<rparr>)
       \<and> owner later (self\<lparr>thread_owner := Some None\<rparr>) = (Inr None, self\<lparr>thread_owner := Some None\<rparr>)
       \<and> context system_bitness current_bitness os later (self\<lparr>thread_owner := Some None\<rparr>) tr =
           (Inl (AttributeError ''bitness''), self\<lparr>thread_owner := Some None\<rparr>, tr)
       \<and> set_context system_bitness current_bitness os later (self\<lparr>thread_owner := Some None\<rparr>) ctx tr =
           (Inl (AttributeError ''bitness''), self\<lparr>thread_owner := Some None\<rparr>, tr)
       \<and> start_address system_bitness current_bitness os later (self\<lparr>thread_owner := Some None\<rparr>) tr =
           (Inl (AttributeError ''bitness''), self\<lparr>thread_owner := Some None\<rparr>, tr)"
proof -
  have o: "owner (Inr ps) self = (Inr None, self\<lparr>thread_owner := Some None\<rparr>)"
    using assms(1) no_owner_found [OF assms(2)] by (simp add: owner_def owner_body_def)
  have c: "thread_owner (self\<lparr>thread_owner := Some None\<rparr>) = Some None" by simp
  have l: "owner later (self\<lparr>thread_owner := Some None\<rparr>) = (Inr None, self\<lparr>thread_owner := Some None\<rparr>)"
    by (simp add: owner_def)
  show ?thesis
    using o l owner_bitness_of_none [OF c]
    by (simp add: context_def set_context_def start_address_def)
qed

theorem orphan_thread_owner_is_none_witness:
  "thread_owner orphan_thread = None
   \<and> list_all (\<lambda>p. th32ProcessID p \<noteq> th32OwnerProcessID orphan_thread) [system_process, explorer]
   \<and> owner (Inr [system_process, explorer]) orphan_thread =
        (Inr None, orphan_thread\<lparr>thread_owner := Some None\<rparr>)
   \<and> context 64 64 (\<lambda>c. Inr 5) (Inr [system_process, explorer\<lparr>th32ProcessID := 999\<rparr>])
        (orphan_thread\<lparr>thread_owner := Some None\<rparr>) [] =
        (Inl (AttributeError ''bitness''), orphan_thread\<lparr>thread_owner := Some None\<rparr>, [])
   \<and> set_context 64 64 (\<lambda>c. Inr 5) (Inr [system_process, explorer\<lparr>th32ProcessID := 999\<rparr>])
        (orphan_thread\<lparr>thread_owner := Some None\<rparr>) 0 [] =
        (Inl (AttributeError ''bitness''), orphan_thread\<lparr>thread_owner := Some None\<rparr>, [])
   \<and> start_address 64 64 (\<lambda>c. Inr 5) (Inr [system_process, explorer\<lparr>th32ProcessID := 999\<rparr>])
        (orphan_thread\<lparr>thread_owner := Some None\<rparr>) [] =
        (Inl (AttributeError ''bitness''), orphan_thread\<lparr>thread_owner := Some None\<rparr>, [])"
proof -
  have a: "thread_owner orphan_thread = None" by (simp add: orphan_thread_def)
  have b: "\<forall>p \<in> set [system_process, explorer]. th32ProcessID p \<noteq> th32OwnerProcessID orphan_thread"
    by (simp add: orphan_thread_def system_process_def explorer_def)
  from orphan_thread_owner_is_none [OF a b, of "Inr [system_process, explorer\<lparr>th32ProcessID := 999\<rparr>]"
      64 64 "\<lambda>c. Inr 5" "[]" 0] a b
  show ?thesis by (simp add: list_all_iff)
qed

end
